theory Spec2Isabelle
  imports Main "HOL-Library.Sublist" "HOL-Library.AList" "HOL-Library.Multiset"
begin

section \<open>Exceptions\<close>

text \<open>
  The Python exceptions the modelled code raises. A function that can raise returns
  \<open>py_error + 'a\<close>, with \<open>Inl\<close> for the exception.
\<close>

datatype py_error =
    ValueError | ZeroDivisionError | StopIteration | TypeError | UnicodeDecodeError
  | ValidationError | NotFoundError | AttributeError | CsvError | OtherError

section \<open>Intake: the staging batch size and the mutation budget\<close>

text \<open>
  \<^verbatim>\<open>cif/intake.py\<close>, class \<^verbatim>\<open>Intake\<close>. The comment above the constant reads:
  "spanner has mutation limit of 80k per transaction. the \_create\_new\_generation
  operation sets the upper bound for intake, modifying 11 columns + 3 indexes in its
  current form, yielding the number below."
\<close>

definition BATCH_SIZE :: nat where
  "BATCH_SIZE = 6153"

definition MUTATION_LIMIT :: nat where
  "MUTATION_LIMIT = 80000"

definition MUTATIONS_PER_ROW :: nat where
  "MUTATIONS_PER_ROW = 11 + 3"

text \<open>
  C5. The batch size is the constant 6153, and a promoted row costs 14 mutations by the
  constant's own comment; but a full batch then costs 86142 mutations, which is above the
  80000 ceiling. The constant is the quotient of 80000 by 13, not by 14.
\<close>

theorem batch_size_exceeds_mutation_limit:
  "BATCH_SIZE = 6153 \<and> MUTATIONS_PER_ROW = 14 \<and>
   MUTATIONS_PER_ROW * BATCH_SIZE = 86142 \<and>
   \<not> (MUTATIONS_PER_ROW * BATCH_SIZE \<le> MUTATION_LIMIT) \<and>
   MUTATION_LIMIT div MUTATIONS_PER_ROW = 5714 \<and>
   MUTATION_LIMIT div 13 = BATCH_SIZE"
  by (simp add: BATCH_SIZE_def MUTATIONS_PER_ROW_def MUTATION_LIMIT_def)

section \<open>Catalog: keyed fragment search\<close>

text \<open>
  \<^verbatim>\<open>cif/catalog.py\<close>: \<^verbatim>\<open>calc_search_fragments_where_clause\<close>,
  \<^verbatim>\<open>calc_search_fragments_key_where_clause\<close> and \<^verbatim>\<open>search_fragments_key\<close>, with
  \<^verbatim>\<open>SpannerSupport.select_many\<close> of \<^verbatim>\<open>cif/clients.py\<close>. The model returns the SQL
  text and the parameters handed to the database, or the exception raised; the rows the
  database answers with are outside the model. A parameter dictionary is an association
  list in insertion order.
\<close>

datatype aggregation_level = DOCUMENT | LINK | TITLE | ROW

fun aggregation_level_value :: "aggregation_level \<Rightarrow> string" where
  "aggregation_level_value DOCUMENT = ''DOCUMENT''"
| "aggregation_level_value LINK = ''LINK''"
| "aggregation_level_value TITLE = ''TITLE''"
| "aggregation_level_value ROW = ''ROW''"

datatype param_value = PStr string | PInt int

type_synonym params = "(string \<times> param_value) list"

record key_search_term =
  ks_key :: string
  ks_values :: "string list"

record search_kwargs =
  kw_aggregation_level :: "aggregation_level option"
  kw_generation_id :: "int option"
  kw_external_id :: "string option"
  kw_query :: "string option"

text \<open>String helpers: \<^verbatim>\<open>str(n)\<close> of a natural number, \<^verbatim>\<open>sep.join(xs)\<close>,
  \<^verbatim>\<open>enumerate(xs)\<close> and \<^verbatim>\<open>s.replace(old, new)\<close> (all non-overlapping occurrences,
  left to right; the counter of \<open>replace_skip\<close> is the number of characters of a match
  still to be skipped).\<close>

definition NL :: string where
  "NL = [CHR 0x0A]"

definition digit_char :: "nat \<Rightarrow> char" where
  "digit_char d = ''0123456789'' ! d"

function str_nat :: "nat \<Rightarrow> string" where
  "str_nat n = (if n < 10 then [digit_char n] else str_nat (n div 10) @ [digit_char (n mod 10)])"
  by pat_completeness auto
termination
  by (relation "measure id") auto

fun join :: "string \<Rightarrow> string list \<Rightarrow> string" where
  "join sep [] = []"
| "join sep [x] = x"
| "join sep (x # y # ys) = x @ sep @ join sep (y # ys)"

definition enumerate_from0 :: "'a list \<Rightarrow> (nat \<times> 'a) list" where
  "enumerate_from0 xs = zip [0..<length xs] xs"

fun replace_skip :: "string \<Rightarrow> string \<Rightarrow> nat \<Rightarrow> string \<Rightarrow> string" where
  "replace_skip old new k [] = (if old = [] then new else [])"
| "replace_skip old new (Suc k) (c # cs) = replace_skip old new k cs"
| "replace_skip old new 0 (c # cs) =
     (if prefix old (c # cs) then new @ replace_skip old new (length old - 1) cs
      else c # replace_skip old new 0 cs)"

definition str_replace :: "string \<Rightarrow> string \<Rightarrow> string \<Rightarrow> string" where
  "str_replace s old new = replace_skip old new 0 s"

text \<open>\<^verbatim>\<open>match(r"[0-9a-fA-F]{32}", source_id)\<close>: \<^verbatim>\<open>re.match\<close> anchors the pattern at the
  start of the string only, so it succeeds when the first 32 characters are hexadecimal
  digits, whatever follows them.\<close>

definition is_hex :: "char \<Rightarrow> bool" where
  "is_hex c = (c \<in> set ''0123456789abcdefABCDEF'')"

definition match_hex32 :: "string \<Rightarrow> bool" where
  "match_hex32 s = (32 \<le> length s \<and> list_all is_hex (take 32 s))"

definition calc_search_fragments_where_clause ::
  "string \<Rightarrow> bool \<Rightarrow> search_kwargs \<Rightarrow> string \<times> params" where
  "calc_search_fragments_where_clause where0 ngram kwargs =
     (let (w1, p1) = (case kw_aggregation_level kwargs of
              Some v \<Rightarrow> (where0 @ '' AND aggregation_level = @aggregation_level'',
                         AList.update ''aggregation_level'' (PStr (aggregation_level_value v)) [])
            | None \<Rightarrow> (where0, []));
          (w2, p2) = (case kw_generation_id kwargs of
              Some v \<Rightarrow> (w1 @ '' AND g.generation_id = @generation_id'',
                         AList.update ''generation_id'' (PInt v) p1)
            | None \<Rightarrow> (w1 @ '' AND g.generation_id = (select max(generation_id) from generation where source_id = @source_id)'', p1));
          (w3, p3) = (case kw_external_id kwargs of
              Some v \<Rightarrow> (w2 @ '' AND a.external_id = @external_id'',
                         AList.update ''external_id'' (PStr v) p2)
            | None \<Rightarrow> (w2, p2));
          (w4, p4) = (case kw_query kwargs of
              Some v \<Rightarrow> ((if ngram then w3 @ '' AND search_ngrams(f.ngram_tokens, @query)''
                          else w3 @ '' AND search(f.text_tokens, @query)''),
                         AList.update ''query'' (PStr v) p3)
            | None \<Rightarrow> (w3, p3))
      in (w4, p4))"

definition key_term_values ::
  "nat \<Rightarrow> string list \<Rightarrow> params \<Rightarrow> string list \<times> params" where
  "key_term_values ix vals params =
     fold (\<lambda>(iy, v) (phs, ps).
             (let value_placeholder = ''@value'' @ str_nat ix @ ''_'' @ str_nat iy
              in (phs @ [value_placeholder], AList.update (tl value_placeholder) (PStr v) ps)))
          (enumerate_from0 vals) ([], params)"

definition calc_search_fragments_key_where_clause ::
  "key_search_term list \<Rightarrow> string \<times> params" where
  "calc_search_fragments_key_where_clause query =
     (let (terms, params) =
        fold (\<lambda>(ix, term) (terms, ps).
                (let key_placeholder = ''@key'' @ str_nat ix;
                     ps1 = AList.update (tl key_placeholder) (PStr (ks_key term)) ps;
                     (value_placeholders, ps2) = key_term_values ix (ks_values term) ps1
                 in (terms @ [''(key = '' @ key_placeholder @ '' and value in (''
                               @ join '', '' value_placeholders @ ''))''], ps2)))
             (enumerate_from0 query) ([], [])
      in (''where '' @ join '' or '' terms, params))"

definition key_search_sql_head :: string where
  "key_search_sql_head =
     NL @ ''        SELECT f.*, a.external_id, g.generation_id from fragment f'' @
     NL @ ''        JOIN ('' @
     NL @ ''        SELECT source_id, artifact_id, fragment_id, seq_no'' @
     NL @ ''        FROM fragment_key'' @
     NL @ ''        ''"

definition key_search_group_by :: "nat \<Rightarrow> string" where
  "key_search_group_by n =
     ''group by source_id, artifact_id, fragment_id, seq_no having count(distinct key) = ''
       @ str_nat n @ '') matches''"

definition key_search_sql_join :: string where
  "key_search_sql_join =
     NL @ ''        ON f.source_id = matches.source_id and f.artifact_id = matches.artifact_id and'' @
     NL @ ''        f.fragment_id = matches.fragment_id AND f.seq_no = matches.seq_no'' @
     NL @ ''        inner join artifact a on f.artifact_id = a.artifact_id and f.source_id = a.source_id'' @
     NL @ ''        inner join generation g on f.artifact_id = g.artifact_id and f.source_id = g.source_id'' @
     NL @ ''        ''"

definition key_search_sql_template :: "string \<Rightarrow> nat \<Rightarrow> string \<Rightarrow> string" where
  "key_search_sql_template where0 n where1 =
     key_search_sql_head @ where0 @
     NL @ ''        and source_id = @source_id'' @
     NL @ ''        '' @ key_search_group_by n @
     key_search_sql_join @ where1 @
     NL @ ''        ''"

definition select_many_call :: "string \<Rightarrow> int \<Rightarrow> int \<Rightarrow> params \<Rightarrow> string \<times> params" where
  "select_many_call sql limit offset params =
     (sql @ '' limit @limit offset @offset'',
      [(''limit'', PInt limit), (''offset'', PInt offset)] @ params)"

definition search_fragments_key ::
  "string \<Rightarrow> key_search_term list \<Rightarrow> int \<Rightarrow> int \<Rightarrow> search_kwargs
     \<Rightarrow> py_error + (string \<times> params)" where
  "search_fragments_key source_id query limit offset kwargs =
     (if \<not> match_hex32 source_id then Inl ValueError
      else
        (let (where0, params0) = calc_search_fragments_key_where_clause query;
             (where1, params1) =
                calc_search_fragments_where_clause ''where f.source_id = @source_id'' False kwargs;
             sql = key_search_sql_template where0 (length query) where1;
             sql' = str_replace sql ''@source_id'' ([CHR 0x27] @ source_id @ [CHR 0x27])
         in Inr (select_many_call sql' limit offset (params0 @ params1))))"

definition no_kwargs :: search_kwargs where
  "no_kwargs = \<lparr>kw_aggregation_level = None, kw_generation_id = None,
                 kw_external_id = None, kw_query = None\<rparr>"


text \<open>\<open>contains pat s\<close>: the text \<open>pat\<close> occurs in \<open>s\<close>.\<close>

fun contains :: "string \<Rightarrow> string \<Rightarrow> bool" where
  "contains pat [] = (pat = [])"
| "contains pat (c # cs) = (prefix pat (c # cs) \<or> contains pat cs)"

subsection \<open>Properties of the generated SQL\<close>

lemma contains_prefix: "contains pat (pat @ post)"
proof (cases "pat @ post")
  case Nil
  then show ?thesis by simp
next
  case (Cons c cs)
  have "prefix pat (pat @ post)" by simp
  then show ?thesis using Cons by simp
qed

lemma contains_append: "contains pat (pre @ pat @ post)"
proof (induction pre)
  case Nil
  show ?case using contains_prefix by simp
next
  case (Cons c pre)
  then show ?case by simp
qed

lemma replace_skip_no_first:
  assumes "old \<noteq> []" and "hd old \<notin> set m"
  shows "replace_skip old new 0 (m @ rest) = m @ replace_skip old new 0 rest"
  using assms(2)
proof (induction m)
  case Nil
  show ?case by simp
next
  case (Cons x m)
  then have "x \<noteq> hd old" by auto
  then have "\<not> prefix old (x # m @ rest)" using assms(1) by (cases old) auto
  with Cons show ?case by simp
qed

lemma prefix_before_foreign:
  assumes "prefix old (a @ c # rest)" and "c \<notin> set old"
  shows "length old \<le> length a \<and> prefix old a"
proof -
  from assms(1) obtain zs where eq: "a @ c # rest = old @ zs" by (auto simp: prefix_def)
  have "length old \<le> length a"
  proof (rule ccontr)
    assume "\<not> length old \<le> length a"
    then have lt: "length a < length old" by simp
    have "(old @ zs) ! length a = old ! length a" using lt by (simp add: nth_append)
    moreover have "(a @ c # rest) ! length a = c" by simp
    ultimately have "old ! length a = c" using eq by metis
    then have "c \<in> set old" using lt nth_mem by metis
    with assms(2) show False by simp
  qed
  moreover from this eq have "prefix old a"
    by (metis append_eq_append_conv_if prefix_def append_take_drop_id)
  ultimately show ?thesis by simp
qed

lemma replace_skip_split:
  assumes "old \<noteq> []" and "c \<notin> set old"
  shows "k \<le> length a \<Longrightarrow>
         replace_skip old new k (a @ c # rest) =
         replace_skip old new k (a @ [c]) @ replace_skip old new 0 rest"
proof (induction a arbitrary: k)
  case Nil
  then have k0: "k = 0" by simp
  have np: "\<not> prefix old (c # xs)" for xs
    using assms by (cases old) auto
  show ?case using k0 np[of rest] np[of "[]"] assms(1) by simp
next
  case (Cons x a)
  show ?case
  proof (cases k)
    case (Suc j)
    then have "j \<le> length a" using Cons.prems by simp
    from Cons.IH[OF this] show ?thesis using Suc by simp
  next
    case 0
    show ?thesis
    proof (cases "prefix old ((x # a) @ c # rest)")
      case True
      from prefix_before_foreign[OF True assms(2)]
      have len: "length old \<le> length (x # a)" and pa: "prefix old (x # a)" by auto
      have p2: "prefix old (x # a @ [c])" using pa by (metis append_Cons prefix_prefix)
      have "length old - 1 \<le> length a" using len by simp
      from Cons.IH[OF this] show ?thesis using 0 True p2 by simp
    next
      case False
      have "\<not> prefix old (x # a @ [c])"
      proof
        assume "prefix old (x # a @ [c])"
        then have "prefix old ((x # a @ [c]) @ rest)" by (rule prefix_prefix)
        with False show False by simp
      qed
      with False Cons.IH[of 0] 0 show ?thesis by simp
    qed
  qed
qed

lemma digit_char_not_at: "d < 10 \<Longrightarrow> digit_char d \<noteq> CHR ''@''"
proof -
  assume "d < 10"
  then have "''0123456789'' ! d \<in> set ''0123456789''" by (intro nth_mem) simp
  then show ?thesis unfolding digit_char_def by auto
qed

lemma str_nat_no_at: "CHR ''@'' \<notin> set (str_nat n)"
proof (induction n rule: str_nat.induct)
  case (1 n)
  show ?case
  proof (cases "n < 10")
    case True
    then show ?thesis using digit_char_not_at[of n] by (subst str_nat.simps) simp
  next
    case False
    have "n mod 10 < 10" by simp
    from digit_char_not_at[OF this] 1[OF False] False show ?thesis
      by (subst str_nat.simps) simp
  qed
qed

lemma key_search_group_by_no_at: "CHR ''@'' \<notin> set (key_search_group_by n)"
  using str_nat_no_at[of n] by (simp add: key_search_group_by_def)

lemma replace_skip_drop:
  "length xs = k \<Longrightarrow> old \<noteq> [] \<Longrightarrow>
   replace_skip old new k (xs @ rest) = replace_skip old new 0 rest"
proof (induction xs arbitrary: k)
  case Nil
  then show ?case by simp
next
  case (Cons x xs)
  then obtain j where "k = Suc j" and "length xs = j" by (cases k) auto
  with Cons show ?case by simp
qed

lemma replace_skip_match:
  assumes "old \<noteq> []"
  shows "replace_skip old new 0 (old @ rest) = new @ replace_skip old new 0 rest"
proof -
  obtain c0 old' where o: "old = c0 # old'" using assms by (cases old) auto
  have "replace_skip old new 0 (c0 # old' @ rest) =
        new @ replace_skip old new (length old - 1) (old' @ rest)"
    using o by simp
  also have "replace_skip old new (length old - 1) (old' @ rest) = replace_skip old new 0 rest"
    by (rule replace_skip_drop) (simp_all add: o)
  finally show ?thesis using o by simp
qed

lemma key_search_template_replace:
  "\<exists>pre post. str_replace (key_search_sql_template where0 n where1) ''@source_id'' new =
      pre @ ''        and source_id = '' @ new @ NL @ ''        '' @ key_search_group_by n @ post"
proof -
  define a where "a = key_search_sql_head @ where0"
  define m0 where "m0 = ''        and source_id = ''"
  define m where "m = NL @ ''        '' @ key_search_group_by n"
  define rest where "rest = key_search_sql_join @ where1 @ NL @ ''        ''"
  have t: "key_search_sql_template where0 n where1 =
           a @ CHR 0x0A # (m0 @ (''@source_id'' @ (m @ rest)))"
    by (simp add: key_search_sql_template_def a_def m0_def m_def rest_def NL_def)
  have m_no_at: "CHR ''@'' \<notin> set m"
    using key_search_group_by_no_at[of n] by (simp add: m_def NL_def)
  have "replace_skip ''@source_id'' new 0 (a @ CHR 0x0A # (m0 @ (''@source_id'' @ (m @ rest)))) =
        replace_skip ''@source_id'' new 0 (a @ [CHR 0x0A]) @
        replace_skip ''@source_id'' new 0 (m0 @ (''@source_id'' @ (m @ rest)))"
    by (rule replace_skip_split) simp_all
  also have "replace_skip ''@source_id'' new 0 (m0 @ (''@source_id'' @ (m @ rest))) =
        m0 @ replace_skip ''@source_id'' new 0 (''@source_id'' @ (m @ rest))"
    by (rule replace_skip_no_first) (simp_all add: m0_def)
  also have "replace_skip ''@source_id'' new 0 (''@source_id'' @ (m @ rest)) =
        new @ replace_skip ''@source_id'' new 0 (m @ rest)"
    by (rule replace_skip_match) simp
  also have "replace_skip ''@source_id'' new 0 (m @ rest) =
        m @ replace_skip ''@source_id'' new 0 rest"
    by (rule replace_skip_no_first) (use m_no_at in simp_all)
  finally have "str_replace (key_search_sql_template where0 n where1) ''@source_id'' new =
      replace_skip ''@source_id'' new 0 (a @ [CHR 0x0A]) @ m0 @ new @ m @
      replace_skip ''@source_id'' new 0 rest"
    unfolding str_replace_def t by simp
  then show ?thesis unfolding m0_def m_def by (metis append.assoc)
qed

definition sql_contains :: "string \<Rightarrow> py_error + (string \<times> params) \<Rightarrow> bool" where
  "sql_contains pat r = (case r of Inr (sql, _) \<Rightarrow> contains pat sql | Inl _ \<Rightarrow> False)"

lemma search_fragments_key_sql:
  assumes "match_hex32 source_id"
  shows "\<exists>pre post params.
           search_fragments_key source_id query limit offset kwargs =
           Inr (pre @ ''        and source_id = '' @ ([CHR 0x27] @ source_id @ [CHR 0x27]) @ NL @
                ''        '' @ key_search_group_by (length query) @ post, params)"
proof -
  obtain where0 params0 where w0: "calc_search_fragments_key_where_clause query = (where0, params0)"
    by force
  obtain where1 params1 where w1:
    "calc_search_fragments_where_clause ''where f.source_id = @source_id'' False kwargs = (where1, params1)"
    by force
  obtain pre post where r:
    "str_replace (key_search_sql_template where0 (length query) where1) ''@source_id''
        ([CHR 0x27] @ source_id @ [CHR 0x27]) =
     pre @ ''        and source_id = '' @ ([CHR 0x27] @ source_id @ [CHR 0x27]) @ NL @ ''        ''
       @ key_search_group_by (length query) @ post"
    using key_search_template_replace by blast
  have "search_fragments_key source_id query limit offset kwargs =
        Inr (pre @ ''        and source_id = '' @ ([CHR 0x27] @ source_id @ [CHR 0x27]) @ NL @
             ''        '' @ key_search_group_by (length query) @
             (post @ '' limit @limit offset @offset''),
             [(''limit'', PInt limit), (''offset'', PInt offset)] @ params0 @ params1)"
    using assms w0 w1 r by (simp add: search_fragments_key_def select_many_call_def Let_def)
  then show ?thesis by blast
qed

lemma search_fragments_key_group_by:
  assumes "match_hex32 source_id"
  shows "sql_contains (key_search_group_by (length query))
           (search_fragments_key source_id query limit offset kwargs)"
proof -
  define x where "x = ''        and source_id = '' @ ([CHR 0x27] @ source_id @ [CHR 0x27]) @ NL @ ''        ''"
  from search_fragments_key_sql[OF assms, of query limit offset kwargs]
  obtain pre post params where
    "search_fragments_key source_id query limit offset kwargs =
       Inr (pre @ ''        and source_id = '' @ ([CHR 0x27] @ source_id @ [CHR 0x27]) @ NL @
            ''        '' @ key_search_group_by (length query) @ post, params)"
    by blast
  then have "search_fragments_key source_id query limit offset kwargs =
       Inr ((pre @ x) @ key_search_group_by (length query) @ post, params)"
    unfolding x_def by (simp only: append_assoc)
  then show ?thesis using contains_append by (simp only: sql_contains_def sum.case prod.case)
qed

lemma search_fragments_key_literal:
  assumes "match_hex32 source_id"
  shows "sql_contains (''and source_id = '' @ [CHR 0x27] @ source_id @ [CHR 0x27] @ NL)
           (search_fragments_key source_id query limit offset kwargs)"
proof -
  define y where "y = ''and source_id = '' @ [CHR 0x27] @ source_id @ [CHR 0x27] @ NL"
  define z where "z = ''        '' @ key_search_group_by (length query)"
  have s: "''        and source_id = '' = ''        '' @ ''and source_id = ''" by simp
  from search_fragments_key_sql[OF assms, of query limit offset kwargs]
  obtain pre post params where
    "search_fragments_key source_id query limit offset kwargs =
       Inr (pre @ ''        and source_id = '' @ ([CHR 0x27] @ source_id @ [CHR 0x27]) @ NL @
            ''        '' @ key_search_group_by (length query) @ post, params)"
    by blast
  then have "search_fragments_key source_id query limit offset kwargs =
       Inr ((pre @ ''        '') @ y @ (z @ post), params)"
    unfolding y_def z_def s by (simp only: append_assoc)
  then show ?thesis using contains_append
    unfolding y_def[symmetric] by (simp only: sql_contains_def sum.case prod.case)
qed

text \<open>
  C4 (as amended). For every keyed fragment search whose source id passes the check, the
  generated SQL groups the \<^verbatim>\<open>fragment_key\<close> rows by (source\_id, artifact\_id, fragment\_id,
  seq\_no) with the condition \<^verbatim>\<open>having count(distinct key) = n\<close>, where \<open>n\<close> is the number
  of terms of the query, \<^verbatim>\<open>len(query)\<close>. That number is the number of distinct keys among
  the terms when the terms' keys are pairwise distinct.
\<close>

theorem search_fragments_key_having_count:
  assumes "match_hex32 source_id"
  shows "sql_contains (key_search_group_by (length query))
           (search_fragments_key source_id query limit offset kwargs) \<and>
         (distinct (map ks_key query) \<longrightarrow> card (set (map ks_key query)) = length query)"
  using search_fragments_key_group_by[OF assms] distinct_card[of "map ks_key query"] by simp

definition ada_query :: "key_search_term list" where
  "ada_query = [\<lparr>ks_key = ''ADA_CODE'', ks_values = [''D6194'', ''D6197'']\<rparr>]"

definition repeated_key_query :: "key_search_term list" where
  "repeated_key_query = [\<lparr>ks_key = ''ADA_CODE'', ks_values = [''D6194'']\<rparr>,
                         \<lparr>ks_key = ''ADA_CODE'', ks_values = [''D6197'']\<rparr>]"

lemma match_hex32_example: "match_hex32 ''05814440726642c9b4f9f3f92aa9a5bf''"
  by code_simp

lemma key_search_group_by_1:
  "key_search_group_by 1 =
   ''group by source_id, artifact_id, fragment_id, seq_no having count(distinct key) = 1) matches''"
  by (simp add: key_search_group_by_def digit_char_def)

lemma key_search_group_by_2:
  "key_search_group_by 2 =
   ''group by source_id, artifact_id, fragment_id, seq_no having count(distinct key) = 2) matches''"
  by (simp add: key_search_group_by_def digit_char_def)

text \<open>The theorem at the query of the repository's test, one term on \<^verbatim>\<open>ADA_CODE\<close>.\<close>

theorem search_fragments_key_having_count_witness:
  "match_hex32 ''05814440726642c9b4f9f3f92aa9a5bf'' \<and>
   distinct (map ks_key ada_query) \<and>
   sql_contains
     ''group by source_id, artifact_id, fragment_id, seq_no having count(distinct key) = 1) matches''
     (search_fragments_key ''05814440726642c9b4f9f3f92aa9a5bf'' ada_query 100 0 no_kwargs) \<and>
   card (set (map ks_key ada_query)) = 1"
proof -
  have d: "distinct (map ks_key ada_query)" by (simp add: ada_query_def)
  have l: "length ada_query = 1" by (simp add: ada_query_def)
  from search_fragments_key_having_count[OF match_hex32_example, of ada_query 100 0 no_kwargs] d l
  show ?thesis using match_hex32_example key_search_group_by_1 by simp
qed

text \<open>
  C4 as stated fails: for a query of two terms on the same key the SQL requires
  \<^verbatim>\<open>count(distinct key) = 2\<close>, while the terms hold one distinct key.
\<close>

theorem key_search_having_counts_terms_not_keys:
  "sql_contains
     ''group by source_id, artifact_id, fragment_id, seq_no having count(distinct key) = 2) matches''
     (search_fragments_key ''05814440726642c9b4f9f3f92aa9a5bf'' repeated_key_query 100 0 no_kwargs) \<and>
   card (set (map ks_key repeated_key_query)) = 1"
proof -
  have l: "length repeated_key_query = 2" by (simp add: repeated_key_query_def)
  have c: "card (set (map ks_key repeated_key_query)) = 1" by (simp add: repeated_key_query_def)
  from search_fragments_key_group_by[OF match_hex32_example, of repeated_key_query 100 0 no_kwargs]
  show ?thesis using l c key_search_group_by_2 by simp
qed

definition injected_source_id :: string where
  "injected_source_id = ''05814440726642c9b4f9f3f92aa9a5bf'' @ [CHR 0x27] @ '' or '' @ [CHR 0x27]
     @ ''1'' @ [CHR 0x27] @ ''='' @ [CHR 0x27] @ ''1''"

lemma match_hex32_injected: "match_hex32 injected_source_id"
  by code_simp

text \<open>
  C6. A source id of 32 hexadecimal digits followed by further text is not rejected: no
  \<^verbatim>\<open>ValueError\<close> is raised, and the whole string, quote characters included, is written
  into the SQL text between the quotes that \<^verbatim>\<open>replace\<close> supplies.
\<close>

theorem search_fragments_key_accepts_longer_source_id:
  "length injected_source_id = 43 \<and>
   \<not> list_all is_hex injected_source_id \<and>
   sql_contains (''and source_id = '' @ [CHR 0x27] @ injected_source_id @ [CHR 0x27] @ NL)
     (search_fragments_key injected_source_id ada_query 100 0 no_kwargs)"
proof -
  have "length injected_source_id = 43" by (simp add: injected_source_id_def)
  moreover have "\<not> list_all is_hex injected_source_id"
    by (simp add: injected_source_id_def is_hex_def)
  ultimately show ?thesis
    using search_fragments_key_literal[OF match_hex32_injected, of ada_query 100 0 no_kwargs]
    by simp
qed

section \<open>Catalog: tables\<close>

text \<open>
  The tables of \<^verbatim>\<open>cif/catalog.py\<close> that the modelled queries read and write, each a list
  of rows. Timestamps are integers, the microseconds since the epoch (a Python
  \<^verbatim>\<open>datetime\<close> has microsecond resolution).
\<close>

record stage_row =
  st_stage_id :: string
  st_batch_id :: nat
  st_source_id :: string
  st_external_id :: string
  st_version :: string
  st_content_length :: int
  st_content_type :: string
  st_created_on :: int
  st_artifact_id :: string

record artifact_row =
  ar_artifact_id :: string
  ar_source_id :: string
  ar_external_id :: string
  ar_version :: string
  ar_content_type :: string
  ar_content_length :: int
  ar_created_on :: int

record generation_row =
  ge_source_id :: string
  ge_generation_id :: int
  ge_artifact_id :: string
  ge_created_on :: int

record catalog_db =
  db_stage :: "stage_row list"
  db_artifact :: "artifact_row list"
  db_generation :: "generation_row list"

section \<open>Catalog: the difference of two generations\<close>

text \<open>
  \<^verbatim>\<open>Catalog.diff_generations\<close>. The query is a full outer join, on \<^verbatim>\<open>external_id\<close>, of the
  artifacts of generation a with those of generation b. A joined row holds both sides, or
  one side with the other's columns null. \<^verbatim>\<open>select_many\<close> appends
  \<^verbatim>\<open>limit @limit offset @offset\<close> to the query and returns that page of the rows, with the
  offset of the next page when the page is full. The query has no \<^verbatim>\<open>order by\<close>, so the
  database is free in the order of the rows; the lists below take the order of a join that
  scans its left side first: the matched pairs, the rows of a alone, the rows of b alone.
\<close>

datatype change = INSERTED | DELETED | UPDATED | NONE

record artifact_change =
  ac_external_id :: string
  ac_artifact_id_a :: "string option"
  ac_artifact_id_b :: "string option"
  ac_change :: change

datatype ('a, 'b) joined = Both 'a 'b | Left_only 'a | Right_only 'b

definition full_outer_join ::
  "('a \<Rightarrow> 'b \<Rightarrow> bool) \<Rightarrow> 'a list \<Rightarrow> 'b list \<Rightarrow> ('a, 'b) joined list" where
  "full_outer_join on as bs =
     [Both a b. a \<leftarrow> as, b \<leftarrow> bs, on a b] @
     [Left_only a. a \<leftarrow> as, \<not> list_ex (\<lambda>b. on a b) bs] @
     [Right_only b. b \<leftarrow> bs, \<not> list_ex (\<lambda>a. on a b) as]"

definition generation_artifacts :: "catalog_db \<Rightarrow> string \<Rightarrow> int \<Rightarrow> (string \<times> string) list" where
  "generation_artifacts db source_id generation_id =
     [(ar_external_id a0, ar_artifact_id a0).
        g \<leftarrow> db_generation db, a0 \<leftarrow> db_artifact db,
        ar_artifact_id a0 = ge_artifact_id g,
        ge_source_id g = source_id, ge_generation_id g = generation_id]"

fun diff_row :: "(string \<times> string, string \<times> string) joined \<Rightarrow> artifact_change" where
  "diff_row (Right_only b) =
     \<lparr>ac_external_id = fst b, ac_artifact_id_a = None, ac_artifact_id_b = Some (snd b),
      ac_change = INSERTED\<rparr>"
| "diff_row (Left_only a) =
     \<lparr>ac_external_id = fst a, ac_artifact_id_a = Some (snd a), ac_artifact_id_b = None,
      ac_change = DELETED\<rparr>"
| "diff_row (Both a b) =
     \<lparr>ac_external_id = fst a, ac_artifact_id_a = Some (snd a), ac_artifact_id_b = Some (snd b),
      ac_change = (if snd a \<noteq> snd b then UPDATED else NONE)\<rparr>"

definition diff_generations_rows :: "catalog_db \<Rightarrow> string \<Rightarrow> int \<Rightarrow> int \<Rightarrow> artifact_change list" where
  "diff_generations_rows db source_id generation_id_a generation_id_b =
     map diff_row
       (full_outer_join (\<lambda>a b. fst a = fst b)
          (generation_artifacts db source_id generation_id_a)
          (generation_artifacts db source_id generation_id_b))"

definition select_page :: "'a list \<Rightarrow> nat \<Rightarrow> nat \<Rightarrow> 'a list \<times> nat option" where
  "select_page rows limit offset =
     (let results = take limit (drop offset rows)
      in (results, if length results = limit then Some (offset + limit) else None))"

definition diff_generations ::
  "catalog_db \<Rightarrow> string \<Rightarrow> int \<Rightarrow> int \<Rightarrow> nat \<Rightarrow> nat \<Rightarrow> artifact_change list \<times> nat option" where
  "diff_generations db source_id generation_id_a generation_id_b limit offset =
     select_page (diff_generations_rows db source_id generation_id_a generation_id_b) limit offset"

text \<open>Exchanging the two sides of a reported change.\<close>

fun swap_inserted_deleted :: "change \<Rightarrow> change" where
  "swap_inserted_deleted INSERTED = DELETED"
| "swap_inserted_deleted DELETED = INSERTED"
| "swap_inserted_deleted UPDATED = UPDATED"
| "swap_inserted_deleted NONE = NONE"

definition swap_sides :: "artifact_change \<Rightarrow> artifact_change" where
  "swap_sides r =
     \<lparr>ac_external_id = ac_external_id r, ac_artifact_id_a = ac_artifact_id_b r,
      ac_artifact_id_b = ac_artifact_id_a r, ac_change = swap_inserted_deleted (ac_change r)\<rparr>"

fun swap_joined :: "('a, 'b) joined \<Rightarrow> ('b, 'a) joined" where
  "swap_joined (Both a b) = Both b a"
| "swap_joined (Left_only a) = Right_only a"
| "swap_joined (Right_only b) = Left_only b"

lemma mset_matched_pairs:
  "mset [f a b. a \<leftarrow> as, b \<leftarrow> bs, on a b] = mset [f a b. b \<leftarrow> bs, a \<leftarrow> as, on a b]"
proof (induction as)
  case Nil
  show ?case by (induction bs) simp_all
next
  case (Cons a as)
  have step: "mset [f a' b. b \<leftarrow> bs, a' \<leftarrow> a # as, on a' b] =
        mset [f a b. b \<leftarrow> bs, on a b] + mset [f a' b. b \<leftarrow> bs, a' \<leftarrow> as, on a' b]"
    by (induction bs) simp_all
  show ?case using Cons step by simp
qed

lemma map_filtered: "map g [f b. b \<leftarrow> bs, P b] = [g (f b). b \<leftarrow> bs, P b]"
  by (induction bs) simp_all

lemma map_matched_pairs:
  "map g [f a b. a \<leftarrow> as, b \<leftarrow> bs, on a b] = [g (f a b). a \<leftarrow> as, b \<leftarrow> bs, on a b]"
  by (induction as) (simp_all add: map_filtered)

lemma full_outer_join_swap:
  "mset (full_outer_join (\<lambda>b a. on a b) bs as) =
   image_mset swap_joined (mset (full_outer_join on as bs))"
proof -
  have "mset [Both b a. b \<leftarrow> bs, a \<leftarrow> as, on a b] = mset [Both b a. a \<leftarrow> as, b \<leftarrow> bs, on a b]"
    by (rule mset_matched_pairs[symmetric])
  also have "[Both b a. a \<leftarrow> as, b \<leftarrow> bs, on a b] =
             map swap_joined [Both a b. a \<leftarrow> as, b \<leftarrow> bs, on a b]"
    by (simp add: map_matched_pairs cong: if_cong)
  finally have 1: "mset [Both b a. b \<leftarrow> bs, a \<leftarrow> as, on a b] =
     image_mset swap_joined (mset [Both a b. a \<leftarrow> as, b \<leftarrow> bs, on a b])"
    by simp
  have 2: "mset [Left_only b. b \<leftarrow> bs, \<not> list_ex (\<lambda>a. on a b) as] =
     image_mset swap_joined (mset [Right_only b. b \<leftarrow> bs, \<not> list_ex (\<lambda>a. on a b) as])"
    by (induction bs) simp_all
  have 3: "mset [Right_only a. a \<leftarrow> as, \<not> list_ex (\<lambda>b. on a b) bs] =
     image_mset swap_joined (mset [Left_only a. a \<leftarrow> as, \<not> list_ex (\<lambda>b. on a b) bs])"
    by (induction as) simp_all
  show ?thesis unfolding full_outer_join_def mset_append image_mset_union 1 2 3
    by (simp only: ac_simps)
qed

lemma joined_on_external_id:
  "j \<in> set (full_outer_join (\<lambda>a b. fst a = fst b) as bs) \<Longrightarrow>
   (case j of Both a b \<Rightarrow> fst a = fst b | _ \<Rightarrow> True)"
  by (auto simp: full_outer_join_def split: joined.splits if_splits)

lemma diff_row_swap:
  "(case j of Both a b \<Rightarrow> fst a = fst b | _ \<Rightarrow> True) \<Longrightarrow>
   diff_row (swap_joined j) = swap_sides (diff_row j)"
  by (cases j) (auto simp: swap_sides_def)

text \<open>The rows of the whole difference, before the page is cut: those of (b, a) are those
  of (a, b) with the two sides exchanged, as multisets.\<close>

lemma diff_generations_rows_swap:
  "mset (diff_generations_rows db source_id generation_id_b generation_id_a) =
     image_mset swap_sides (mset (diff_generations_rows db source_id generation_id_a generation_id_b)) \<and>
   set (map ac_external_id (diff_generations_rows db source_id generation_id_b generation_id_a)) =
     set (map ac_external_id (diff_generations_rows db source_id generation_id_a generation_id_b))"
proof -
  define as where "as = generation_artifacts db source_id generation_id_a"
  define bs where "bs = generation_artifacts db source_id generation_id_b"
  define on where "on = (\<lambda>(a::string \<times> string) (b::string \<times> string). fst a = fst b)"
  have sym: "(\<lambda>b a. on a b) = on" by (auto simp: on_def fun_eq_iff)
  have "mset (map diff_row (full_outer_join on bs as)) =
        image_mset diff_row (image_mset swap_joined (mset (full_outer_join on as bs)))"
    using full_outer_join_swap[of on bs as] sym by simp
  also have "\<dots> = image_mset (\<lambda>j. diff_row (swap_joined j)) (mset (full_outer_join on as bs))"
    by (simp add: multiset.map_comp o_def)
  also have "\<dots> = image_mset (\<lambda>j. swap_sides (diff_row j)) (mset (full_outer_join on as bs))"
    by (rule image_mset_cong) (use joined_on_external_id diff_row_swap in \<open>auto simp: on_def\<close>)
  also have "\<dots> = image_mset swap_sides (mset (map diff_row (full_outer_join on as bs)))"
    by (simp add: multiset.map_comp o_def)
  finally have m: "mset (diff_generations_rows db source_id generation_id_b generation_id_a) =
     image_mset swap_sides (mset (diff_generations_rows db source_id generation_id_a generation_id_b))"
    by (simp add: diff_generations_rows_def as_def bs_def on_def)
  have "set_mset (mset (diff_generations_rows db source_id generation_id_b generation_id_a)) =
        swap_sides ` set (diff_generations_rows db source_id generation_id_a generation_id_b)"
    unfolding m by simp
  then have "set (diff_generations_rows db source_id generation_id_b generation_id_a) =
        swap_sides ` set (diff_generations_rows db source_id generation_id_a generation_id_b)"
    by simp
  then have "ac_external_id ` set (diff_generations_rows db source_id generation_id_b generation_id_a) =
        ac_external_id ` set (diff_generations_rows db source_id generation_id_a generation_id_b)"
    by (simp add: image_image swap_sides_def)
  with m show ?thesis by simp
qed

lemma select_page_all:
  "snd (select_page rows limit 0) = None \<Longrightarrow> length rows < limit \<and> fst (select_page rows limit 0) = rows"
  by (auto simp: select_page_def Let_def min_def split: if_splits)

lemma select_page_short:
  "length rows < limit \<Longrightarrow> select_page rows limit 0 = (rows, None)"
  by (simp add: select_page_def Let_def)

text \<open>Two generations of one source with nothing in common: generation 100 holds
  \<^verbatim>\<open>x.txt\<close>, generation 200 holds \<^verbatim>\<open>y.txt\<close>.\<close>

definition disjoint_generations_db :: catalog_db where
  "disjoint_generations_db =
     \<lparr>db_stage = [],
      db_artifact =
        [\<lparr>ar_artifact_id = ''a1'', ar_source_id = ''src'', ar_external_id = ''x.txt'',
          ar_version = ''v1'', ar_content_type = ''text/plain'', ar_content_length = 1,
          ar_created_on = 100\<rparr>,
         \<lparr>ar_artifact_id = ''a2'', ar_source_id = ''src'', ar_external_id = ''y.txt'',
          ar_version = ''v1'', ar_content_type = ''text/plain'', ar_content_length = 1,
          ar_created_on = 200\<rparr>],
      db_generation =
        [\<lparr>ge_source_id = ''src'', ge_generation_id = 100, ge_artifact_id = ''a1'', ge_created_on = 100\<rparr>,
         \<lparr>ge_source_id = ''src'', ge_generation_id = 200, ge_artifact_id = ''a2'', ge_created_on = 200\<rparr>]\<rparr>"

text \<open>
  C8. \<^verbatim>\<open>diff_generations\<close> returns one page of the difference. For every source and
  every two generations a and b: when the call for (a, b) at offset 0 returns no offset of
  a next page, so that its page holds the whole difference, the call for (b, a) with the
  same limit returns no next page either, and its rows are the rows for (a, b) with the
  two sides exchanged: the same external ids, the artifact ids of a and b swapped,
  INSERTED and DELETED swapped, UPDATED and NONE unchanged. The equation is between
  multisets, so it holds row for row.
\<close>

theorem diff_generations_swap:
  assumes "snd (diff_generations db source_id generation_id_a generation_id_b limit 0) = None"
  shows "snd (diff_generations db source_id generation_id_b generation_id_a limit 0) = None \<and>
         mset (fst (diff_generations db source_id generation_id_b generation_id_a limit 0)) =
           image_mset swap_sides
             (mset (fst (diff_generations db source_id generation_id_a generation_id_b limit 0))) \<and>
         set (map ac_external_id
                (fst (diff_generations db source_id generation_id_b generation_id_a limit 0))) =
           set (map ac_external_id
                  (fst (diff_generations db source_id generation_id_a generation_id_b limit 0)))"
proof -
  let ?ab = "diff_generations_rows db source_id generation_id_a generation_id_b"
  let ?ba = "diff_generations_rows db source_id generation_id_b generation_id_a"
  from select_page_all[of ?ab limit] assms
  have ab: "length ?ab < limit" "fst (diff_generations db source_id generation_id_a generation_id_b limit 0) = ?ab"
    by (simp_all add: diff_generations_def)
  have rows: "mset ?ba = image_mset swap_sides (mset ?ab)"
    and ids: "set (map ac_external_id ?ba) = set (map ac_external_id ?ab)"
    using diff_generations_rows_swap[of db source_id generation_id_b generation_id_a] by simp_all
  from rows have "size (mset ?ba) = size (mset ?ab)" by simp
  then have "length ?ba < limit" using ab(1) by simp
  then have ba: "diff_generations db source_id generation_id_b generation_id_a limit 0 = (?ba, None)"
    by (simp add: diff_generations_def select_page_short)
  show ?thesis unfolding ba ab(2) using rows ids by simp
qed

lemma disjoint_generations_rows:
  "diff_generations_rows disjoint_generations_db ''src'' 100 200 =
     [\<lparr>ac_external_id = ''x.txt'', ac_artifact_id_a = Some ''a1'', ac_artifact_id_b = None,
       ac_change = DELETED\<rparr>,
      \<lparr>ac_external_id = ''y.txt'', ac_artifact_id_a = None, ac_artifact_id_b = Some ''a2'',
       ac_change = INSERTED\<rparr>]"
  "diff_generations_rows disjoint_generations_db ''src'' 200 100 =
     [\<lparr>ac_external_id = ''y.txt'', ac_artifact_id_a = Some ''a2'', ac_artifact_id_b = None,
       ac_change = DELETED\<rparr>,
      \<lparr>ac_external_id = ''x.txt'', ac_artifact_id_a = None, ac_artifact_id_b = Some ''a1'',
       ac_change = INSERTED\<rparr>]"
  by (simp_all add: diff_generations_rows_def full_outer_join_def generation_artifacts_def
      disjoint_generations_db_def)

text \<open>With the default limit of 100 the page holds both rows of the example.\<close>

theorem diff_generations_swap_witness:
  "snd (diff_generations disjoint_generations_db ''src'' 100 200 100 0) = None \<and>
   snd (diff_generations disjoint_generations_db ''src'' 200 100 100 0) = None \<and>
   set (map ac_external_id (fst (diff_generations disjoint_generations_db ''src'' 200 100 100 0))) =
     {''x.txt'', ''y.txt''} \<and>
   mset (fst (diff_generations disjoint_generations_db ''src'' 200 100 100 0)) =
     image_mset swap_sides
       (mset (fst (diff_generations disjoint_generations_db ''src'' 100 200 100 0)))"
proof -
  have h: "snd (diff_generations disjoint_generations_db ''src'' 100 200 100 0) = None"
    by (simp add: diff_generations_def select_page_def disjoint_generations_rows)
  have e: "set (map ac_external_id (fst (diff_generations disjoint_generations_db ''src'' 100 200 100 0))) =
           {''x.txt'', ''y.txt''}"
    by (simp add: diff_generations_def select_page_def disjoint_generations_rows)
  from diff_generations_swap[OF h] h e show ?thesis by simp
qed

text \<open>A page that does not hold the whole difference: with limit 1 the call for
  (100, 200) reports \<^verbatim>\<open>x.txt\<close> as DELETED and the call for (200, 100) reports \<^verbatim>\<open>y.txt\<close> as
  DELETED. The external ids reported differ, and \<^verbatim>\<open>x.txt\<close>, DELETED one way, is not
  INSERTED the other way.\<close>

theorem diff_generations_page_not_symmetric:
  "diff_generations disjoint_generations_db ''src'' 100 200 1 0 =
     ([\<lparr>ac_external_id = ''x.txt'', ac_artifact_id_a = Some ''a1'', ac_artifact_id_b = None,
        ac_change = DELETED\<rparr>], Some 1) \<and>
   diff_generations disjoint_generations_db ''src'' 200 100 1 0 =
     ([\<lparr>ac_external_id = ''y.txt'', ac_artifact_id_a = Some ''a2'', ac_artifact_id_b = None,
        ac_change = DELETED\<rparr>], Some 1) \<and>
   set (map ac_external_id (fst (diff_generations disjoint_generations_db ''src'' 200 100 1 0))) \<noteq>
     set (map ac_external_id (fst (diff_generations disjoint_generations_db ''src'' 100 200 1 0)))"
  by (simp add: diff_generations_def select_page_def disjoint_generations_rows)
section \<open>Catalog: promotion of a staged batch\<close>

text \<open>
  \<^verbatim>\<open>Catalog._insert_artifact_generation_batch_helper\<close>: three statements in one
  transaction. A failing statement aborts the transaction, so the function returns the
  error and the caller keeps the database it had.

  Modelled from the spec: the primary keys of the tables, whose schema is not among the
  sources. The spec says that pass 2 ignores duplicates with an "identical artifact\_id",
  so \<^verbatim>\<open>artifact_id\<close> is the key that \<^verbatim>\<open>insert or ignore\<close> compares; and that a generation
  is a set of artifact ids whose key violation fails loudly, so the key of
  \<^verbatim>\<open>generation\<close> is (source\_id, generation\_id, artifact\_id) and a plain
  \<^verbatim>\<open>insert\<close> of a present key fails.
\<close>

datatype db_error = Scalar_subquery_multiple_rows | Already_exists

definition artifact_key :: "artifact_row \<Rightarrow> string \<times> string \<times> string" where
  "artifact_key a = (ar_source_id a, ar_external_id a, ar_version a)"

definition stage_key :: "stage_row \<Rightarrow> string \<times> string \<times> string" where
  "stage_key s = (st_source_id s, st_external_id s, st_version s)"

definition in_batch :: "string \<Rightarrow> string \<Rightarrow> nat \<Rightarrow> stage_row \<Rightarrow> bool" where
  "in_batch stage_id source_id batch_id s =
     (st_stage_id s = stage_id \<and> st_batch_id s = batch_id \<and> st_source_id s = source_id)"

text \<open>The scalar subquery of pass 1: the ids of the artifacts that agree with a staged row
  on source\_id, external\_id and version. The statement fails when the subquery yields
  more than one row for a row it updates.\<close>

definition matching_artifact_ids :: "artifact_row list \<Rightarrow> stage_row \<Rightarrow> string list" where
  "matching_artifact_ids arts s =
     map ar_artifact_id
       (filter (\<lambda>a0. ar_source_id a0 = st_source_id s \<and> ar_external_id a0 = st_external_id s \<and>
                      ar_version a0 = st_version s) arts)"

definition pass_1 :: "catalog_db \<Rightarrow> string \<Rightarrow> string \<Rightarrow> nat \<Rightarrow> db_error + (catalog_db \<times> nat)" where
  "pass_1 db stage_id source_id batch_id =
     (let arts = db_artifact db;
          updated = (\<lambda>s. in_batch stage_id source_id batch_id s \<and> matching_artifact_ids arts s \<noteq> [])
      in if list_ex (\<lambda>s. updated s \<and> 1 < length (matching_artifact_ids arts s)) (db_stage db)
         then Inl Scalar_subquery_multiple_rows
         else Inr (db\<lparr>db_stage :=
                        map (\<lambda>s. if updated s
                                 then s\<lparr>st_artifact_id := hd (matching_artifact_ids arts s)\<rparr>
                                 else s) (db_stage db)\<rparr>,
                   length (filter updated (db_stage db))))"

text \<open>Pass 2: \<^verbatim>\<open>insert or ignore\<close>, row by row; a row whose key is present is skipped.\<close>

definition stage_artifact :: "stage_row \<Rightarrow> artifact_row" where
  "stage_artifact s =
     \<lparr>ar_artifact_id = st_artifact_id s, ar_source_id = st_source_id s,
      ar_external_id = st_external_id s, ar_version = st_version s,
      ar_content_type = st_content_type s, ar_content_length = st_content_length s,
      ar_created_on = st_created_on s\<rparr>"

fun insert_or_ignore :: "artifact_row list \<Rightarrow> artifact_row list \<Rightarrow> artifact_row list \<times> nat" where
  "insert_or_ignore tbl [] = (tbl, 0)"
| "insert_or_ignore tbl (r # rs) =
     (if ar_artifact_id r \<in> set (map ar_artifact_id tbl) then insert_or_ignore tbl rs
      else (let (tbl', n) = insert_or_ignore (tbl @ [r]) rs in (tbl', Suc n)))"

definition pass_2 :: "catalog_db \<Rightarrow> string \<Rightarrow> string \<Rightarrow> nat \<Rightarrow> catalog_db \<times> nat" where
  "pass_2 db stage_id source_id batch_id =
     (let rows = map stage_artifact (filter (in_batch stage_id source_id batch_id) (db_stage db));
          (tbl, n) = insert_or_ignore (db_artifact db) rows
      in (db\<lparr>db_artifact := tbl\<rparr>, n))"

text \<open>Pass 3: \<^verbatim>\<open>unix_micros(timestamp_trunc(created_on, MICROSECOND))\<close> is the identity
  on a timestamp that is already a number of microseconds.\<close>

definition unix_micros :: "int \<Rightarrow> int" where
  "unix_micros created_on = created_on"

definition stage_generation :: "stage_row \<Rightarrow> generation_row" where
  "stage_generation s =
     \<lparr>ge_source_id = st_source_id s, ge_generation_id = unix_micros (st_created_on s),
      ge_artifact_id = st_artifact_id s, ge_created_on = st_created_on s\<rparr>"

definition generation_key :: "generation_row \<Rightarrow> string \<times> int \<times> string" where
  "generation_key g = (ge_source_id g, ge_generation_id g, ge_artifact_id g)"

fun insert_generation_rows ::
  "generation_row list \<Rightarrow> generation_row list \<Rightarrow> db_error + generation_row list" where
  "insert_generation_rows tbl [] = Inr tbl"
| "insert_generation_rows tbl (r # rs) =
     (if generation_key r \<in> set (map generation_key tbl) then Inl Already_exists
      else insert_generation_rows (tbl @ [r]) rs)"

definition pass_3 :: "catalog_db \<Rightarrow> string \<Rightarrow> string \<Rightarrow> nat \<Rightarrow> db_error + (catalog_db \<times> nat)" where
  "pass_3 db stage_id source_id batch_id =
     (let rows = map stage_generation (filter (in_batch stage_id source_id batch_id) (db_stage db))
      in case insert_generation_rows (db_generation db) rows of
           Inl e \<Rightarrow> Inl e
         | Inr tbl \<Rightarrow> Inr (db\<lparr>db_generation := tbl\<rparr>, length rows))"

definition insert_artifact_generation_batch ::
  "catalog_db \<Rightarrow> string \<Rightarrow> string \<Rightarrow> nat \<Rightarrow> db_error + (catalog_db \<times> nat \<times> nat \<times> nat)" where
  "insert_artifact_generation_batch db stage_id source_id batch_id =
     (case pass_1 db stage_id source_id batch_id of
        Inl e \<Rightarrow> Inl e
      | Inr (db1, n1) \<Rightarrow>
          (let (db2, n2) = pass_2 db1 stage_id source_id batch_id
           in case pass_3 db2 stage_id source_id batch_id of
                Inl e \<Rightarrow> Inl e
              | Inr (db3, n3) \<Rightarrow> Inr (db3, n1, n2, n3)))"

text \<open>The artifact id a staged row carries after pass 1.\<close>

definition reconciled_id :: "artifact_row list \<Rightarrow> stage_row \<Rightarrow> string" where
  "reconciled_id arts s =
     (case matching_artifact_ids arts s of [] \<Rightarrow> st_artifact_id s | aid # _ \<Rightarrow> aid)"

subsection \<open>The three passes in closed form\<close>

lemma filter_key_le_1:
  "distinct (map f xs) \<Longrightarrow> length (filter (\<lambda>x. f x = k) xs) \<le> 1"
proof (induction xs)
  case Nil
  show ?case by simp
next
  case (Cons x xs)
  show ?case
  proof (cases "f x = k")
    case True
    with Cons.prems have "k \<notin> f ` set xs" by auto
    then have "filter (\<lambda>x. f x = k) xs = []" by (auto simp: filter_empty_conv)
    with True show ?thesis by simp
  next
    case False
    with Cons show ?thesis by simp
  qed
qed

lemma matching_artifact_ids_key:
  "matching_artifact_ids arts s =
   map ar_artifact_id (filter (\<lambda>a. artifact_key a = stage_key s) arts)"
  by (simp add: matching_artifact_ids_def artifact_key_def stage_key_def)

lemma matching_le_1:
  "distinct (map artifact_key arts) \<Longrightarrow> length (matching_artifact_ids arts s) \<le> 1"
  using filter_key_le_1[of artifact_key arts "stage_key s"]
  by (simp add: matching_artifact_ids_key)

lemma reconciled_unmatched:
  "matching_artifact_ids arts s = [] \<Longrightarrow> reconciled_id arts s = st_artifact_id s"
  by (simp add: reconciled_id_def)

lemma reconciled_matched:
  "matching_artifact_ids arts s \<noteq> [] \<Longrightarrow> reconciled_id arts s = hd (matching_artifact_ids arts s)"
  by (cases "matching_artifact_ids arts s") (simp_all add: reconciled_id_def)

lemma pass_1_explicit:
  assumes "distinct (map artifact_key (db_artifact db))"
  shows "pass_1 db stage_id source_id batch_id =
         Inr (db\<lparr>db_stage := map (\<lambda>s. if in_batch stage_id source_id batch_id s
                                        then s\<lparr>st_artifact_id := reconciled_id (db_artifact db) s\<rparr>
                                        else s) (db_stage db)\<rparr>,
              length (filter (\<lambda>s. in_batch stage_id source_id batch_id s \<and>
                                  matching_artifact_ids (db_artifact db) s \<noteq> []) (db_stage db)))"
proof -
  have no_err: "\<not> list_ex (\<lambda>s. (in_batch stage_id source_id batch_id s \<and>
                    matching_artifact_ids (db_artifact db) s \<noteq> []) \<and>
                    1 < length (matching_artifact_ids (db_artifact db) s)) (db_stage db)"
    using matching_le_1[OF assms] by (auto simp: list_ex_iff not_less)
  have same: "(\<lambda>s. if in_batch stage_id source_id batch_id s \<and>
                      matching_artifact_ids (db_artifact db) s \<noteq> []
                   then s\<lparr>st_artifact_id := hd (matching_artifact_ids (db_artifact db) s)\<rparr>
                   else s) =
              (\<lambda>s. if in_batch stage_id source_id batch_id s
                   then s\<lparr>st_artifact_id := reconciled_id (db_artifact db) s\<rparr>
                   else s)"
    by (auto simp: fun_eq_iff reconciled_unmatched reconciled_matched)
  show ?thesis
    unfolding pass_1_def Let_def using no_err by (simp only: if_False same)
qed

lemma in_batch_update [simp]:
  "in_batch stage_id source_id batch_id (s\<lparr>st_artifact_id := x\<rparr>) = in_batch stage_id source_id batch_id s"
  by (simp add: in_batch_def)

lemma batch_after_pass_1:
  "filter (in_batch stage_id source_id batch_id)
     (map (\<lambda>s. if in_batch stage_id source_id batch_id s
               then s\<lparr>st_artifact_id := reconciled_id arts s\<rparr> else s) stage) =
   map (\<lambda>s. s\<lparr>st_artifact_id := reconciled_id arts s\<rparr>)
     (filter (in_batch stage_id source_id batch_id) stage)"
  by (induction stage) simp_all

lemma insert_or_ignore_explicit:
  "distinct (map ar_artifact_id (filter (\<lambda>r. ar_artifact_id r \<notin> set (map ar_artifact_id tbl)) rows)) \<Longrightarrow>
   insert_or_ignore tbl rows =
     (tbl @ filter (\<lambda>r. ar_artifact_id r \<notin> set (map ar_artifact_id tbl)) rows,
      length (filter (\<lambda>r. ar_artifact_id r \<notin> set (map ar_artifact_id tbl)) rows))"
proof (induction rows arbitrary: tbl)
  case Nil
  show ?case by simp
next
  case (Cons r rows)
  show ?case
  proof (cases "ar_artifact_id r \<in> set (map ar_artifact_id tbl)")
    case True
    with Cons show ?thesis by simp
  next
    case False
    let ?P = "\<lambda>x. ar_artifact_id x \<notin> set (map ar_artifact_id tbl)"
    let ?Q = "\<lambda>x. ar_artifact_id x \<notin> set (map ar_artifact_id (tbl @ [r]))"
    from Cons.prems False
    have d: "distinct (ar_artifact_id r # map ar_artifact_id (filter ?P rows))" by simp
    then have notin: "ar_artifact_id r \<notin> ar_artifact_id ` set (filter ?P rows)" by simp
    have eq: "filter ?Q rows = filter ?P rows"
    proof (rule filter_cong[OF refl])
      fix x assume x: "x \<in> set rows"
      have "ar_artifact_id x \<noteq> ar_artifact_id r" if "?P x"
      proof
        assume "ar_artifact_id x = ar_artifact_id r"
        moreover have "x \<in> set (filter ?P rows)" using x that by simp
        ultimately have "ar_artifact_id r \<in> ar_artifact_id ` set (filter ?P rows)"
          by (metis image_eqI)
        with notin show False by simp
      qed
      then show "?Q x = ?P x" by auto
    qed
    have "distinct (map ar_artifact_id (filter ?Q rows))" using d eq by simp
    from Cons.IH[OF this] eq False show ?thesis by simp
  qed
qed

lemma insert_generation_rows_explicit:
  "distinct (map generation_key rows) \<Longrightarrow>
   set (map generation_key rows) \<inter> set (map generation_key tbl) = {} \<Longrightarrow>
   insert_generation_rows tbl rows = Inr (tbl @ rows)"
proof (induction rows arbitrary: tbl)
  case Nil
  show ?case by simp
next
  case (Cons r rows)
  from Cons.prems have 1: "generation_key r \<notin> set (map generation_key tbl)" by auto
  from Cons.prems have 2: "distinct (map generation_key rows)" by simp
  from Cons.prems have 3: "set (map generation_key rows) \<inter> set (map generation_key (tbl @ [r])) = {}"
    by auto
  from Cons.IH[OF 2 3] 1 show ?case by simp
qed

lemma hd_matching_in_ids:
  "matching_artifact_ids arts s \<noteq> [] \<Longrightarrow>
   hd (matching_artifact_ids arts s) \<in> set (map ar_artifact_id arts)"
proof -
  assume ne: "matching_artifact_ids arts s \<noteq> []"
  then have "hd (matching_artifact_ids arts s) \<in> set (matching_artifact_ids arts s)" by simp
  also have "\<dots> \<subseteq> set (map ar_artifact_id arts)"
    by (auto simp: matching_artifact_ids_def)
  finally show ?thesis .
qed

lemma reconciled_in_ids_iff:
  assumes "st_artifact_id s \<notin> set (map ar_artifact_id arts)"
  shows "reconciled_id arts s \<in> set (map ar_artifact_id arts) \<longleftrightarrow>
         matching_artifact_ids arts s \<noteq> []"
proof (cases "matching_artifact_ids arts s = []")
  case True
  then show ?thesis using assms by (simp add: reconciled_unmatched)
next
  case False
  then show ?thesis using hd_matching_in_ids[OF False] by (simp add: reconciled_matched)
qed

lemma matched_artifact:
  assumes "matching_artifact_ids arts s \<noteq> []"
  shows "\<exists>a \<in> set arts. artifact_key a = stage_key s \<and> ar_artifact_id a = reconciled_id arts s"
proof -
  let ?f = "filter (\<lambda>a. artifact_key a = stage_key s) arts"
  from assms obtain a rest where f: "?f = a # rest"
    by (cases ?f) (auto simp: matching_artifact_ids_key)
  then have "a \<in> set ?f" by simp
  then have "a \<in> set arts" and "artifact_key a = stage_key s" by simp_all
  moreover have "reconciled_id arts s = ar_artifact_id a"
    using f by (simp add: reconciled_id_def matching_artifact_ids_key)
  ultimately show ?thesis by metis
qed

lemma reconciled_of_key:
  assumes "distinct (map artifact_key arts)" and "a \<in> set arts" and "artifact_key a = stage_key s"
  shows "reconciled_id arts s = ar_artifact_id a"
proof -
  let ?f = "filter (\<lambda>a. artifact_key a = stage_key s) arts"
  have "a \<in> set ?f" using assms by simp
  moreover have "length ?f \<le> 1" using filter_key_le_1[OF assms(1)] .
  ultimately have "?f = [a]"
    by (cases ?f) (auto simp: le_Suc_eq)
  then show ?thesis by (simp add: reconciled_id_def matching_artifact_ids_key)
qed

lemma matched_iff_key:
  "matching_artifact_ids arts s \<noteq> [] \<longleftrightarrow> stage_key s \<in> set (map artifact_key arts)"
proof -
  have "matching_artifact_ids arts s \<noteq> [] \<longleftrightarrow> (\<exists>a \<in> set arts. artifact_key a = stage_key s)"
    by (simp add: matching_artifact_ids_key filter_empty_conv)
  also have "\<dots> \<longleftrightarrow> stage_key s \<in> artifact_key ` set arts"
  proof
    assume "\<exists>a \<in> set arts. artifact_key a = stage_key s"
    then obtain a where "a \<in> set arts" and k: "artifact_key a = stage_key s" by blast
    then have "artifact_key a \<in> artifact_key ` set arts" by (intro imageI)
    with k show "stage_key s \<in> artifact_key ` set arts" by simp
  next
    assume "stage_key s \<in> artifact_key ` set arts"
    then obtain a where "a \<in> set arts" and "stage_key s = artifact_key a" by (rule imageE)
    then show "\<exists>a \<in> set arts. artifact_key a = stage_key s" by (intro bexI[of _ a]) simp_all
  qed
  finally show ?thesis by simp
qed

lemma reconciled_inj_on:
  assumes ids: "distinct (map ar_artifact_id arts)"
    and keys: "distinct (map stage_key B)"
    and prov: "distinct (map st_artifact_id B)"
    and fresh: "set (map st_artifact_id B) \<inter> set (map ar_artifact_id arts) = {}"
  shows "inj_on (reconciled_id arts) (set B)"
proof (rule inj_onI)
  fix s t assume s: "s \<in> set B" and t: "t \<in> set B"
    and eq: "reconciled_id arts s = reconciled_id arts t"
  have fs: "st_artifact_id s \<notin> set (map ar_artifact_id arts)" using s fresh by auto
  have ft: "st_artifact_id t \<notin> set (map ar_artifact_id arts)" using t fresh by auto
  have inj_key: "inj_on stage_key (set B)" using keys by (simp add: distinct_map)
  have inj_prov: "inj_on st_artifact_id (set B)" using prov by (simp add: distinct_map)
  have inj_id: "inj_on ar_artifact_id (set arts)" using ids by (simp add: distinct_map)
  show "s = t"
  proof (cases "matching_artifact_ids arts s = []")
    case True
    then have "reconciled_id arts s \<notin> set (map ar_artifact_id arts)"
      using reconciled_in_ids_iff[OF fs] by simp
    then have "matching_artifact_ids arts t = []"
      using reconciled_in_ids_iff[OF ft] eq by simp
    with True eq have "st_artifact_id s = st_artifact_id t" by (simp add: reconciled_unmatched)
    with inj_prov s t show ?thesis by (simp add: inj_on_def)
  next
    case False
    then have "reconciled_id arts s \<in> set (map ar_artifact_id arts)"
      using reconciled_in_ids_iff[OF fs] by simp
    then have nt: "matching_artifact_ids arts t \<noteq> []"
      using reconciled_in_ids_iff[OF ft] eq by simp
    from matched_artifact[OF False] obtain a where
      a: "a \<in> set arts" "artifact_key a = stage_key s" "ar_artifact_id a = reconciled_id arts s"
      by blast
    from matched_artifact[OF nt] obtain b where
      b: "b \<in> set arts" "artifact_key b = stage_key t" "ar_artifact_id b = reconciled_id arts t"
      by blast
    have "a = b" using inj_id a b eq by (simp add: inj_on_def)
    then have "stage_key s = stage_key t" using a b by simp
    with inj_key s t show ?thesis by (simp add: inj_on_def)
  qed
qed

lemma promotion_explicit:
  assumes ids: "distinct (map ar_artifact_id (db_artifact db))"
    and keys: "distinct (map artifact_key (db_artifact db))"
    and batch_keys: "distinct (map stage_key (filter (in_batch stage_id source_id batch_id) (db_stage db)))"
    and prov: "distinct (map st_artifact_id (filter (in_batch stage_id source_id batch_id) (db_stage db)))"
    and fresh: "set (map st_artifact_id (filter (in_batch stage_id source_id batch_id) (db_stage db))) \<inter>
                set (map ar_artifact_id (db_artifact db)) = {}"
    and gen_fresh: "list_all (\<lambda>s. (st_source_id s, unix_micros (st_created_on s),
                                    reconciled_id (db_artifact db) s)
                                  \<notin> set (map generation_key (db_generation db)))
                      (filter (in_batch stage_id source_id batch_id) (db_stage db))"
  shows "insert_artifact_generation_batch db stage_id source_id batch_id =
     Inr (\<lparr>db_stage = map (\<lambda>s. if in_batch stage_id source_id batch_id s
                                then s\<lparr>st_artifact_id := reconciled_id (db_artifact db) s\<rparr>
                                else s) (db_stage db),
           db_artifact = db_artifact db @
              map stage_artifact
                (filter (\<lambda>s. matching_artifact_ids (db_artifact db) s = [])
                   (filter (in_batch stage_id source_id batch_id) (db_stage db))),
           db_generation = db_generation db @
              map (\<lambda>s. stage_generation (s\<lparr>st_artifact_id := reconciled_id (db_artifact db) s\<rparr>))
                (filter (in_batch stage_id source_id batch_id) (db_stage db))\<rparr>,
          length (filter (\<lambda>s. in_batch stage_id source_id batch_id s \<and>
                              matching_artifact_ids (db_artifact db) s \<noteq> []) (db_stage db)),
          length (filter (\<lambda>s. matching_artifact_ids (db_artifact db) s = [])
                   (filter (in_batch stage_id source_id batch_id) (db_stage db))),
          length (filter (in_batch stage_id source_id batch_id) (db_stage db)))"
proof -
  define arts where "arts = db_artifact db"
  define B where "B = filter (in_batch stage_id source_id batch_id) (db_stage db)"
  define upd where "upd = (\<lambda>s. s\<lparr>st_artifact_id := reconciled_id arts s\<rparr>)"
  define rec where "rec = (\<lambda>s. if in_batch stage_id source_id batch_id s then upd s else s)"
  define U where "U = filter (\<lambda>s. matching_artifact_ids arts s = []) B"
  define n1 where "n1 = length (filter (\<lambda>s. in_batch stage_id source_id batch_id s \<and>
                              matching_artifact_ids arts s \<noteq> []) (db_stage db))"
  define db1 where "db1 = db\<lparr>db_stage := map rec (db_stage db)\<rparr>"
  have p1: "pass_1 db stage_id source_id batch_id = Inr (db1, n1)"
    using pass_1_explicit[OF keys, of stage_id source_id batch_id]
    by (simp add: db1_def rec_def upd_def n1_def arts_def)
  have batch1: "filter (in_batch stage_id source_id batch_id) (db_stage db1) = map upd B"
    using batch_after_pass_1[of stage_id source_id batch_id arts "db_stage db"]
    unfolding db1_def rec_def upd_def B_def by simp
  have arts1: "db_artifact db1 = arts" by (simp add: db1_def arts_def)
  \<comment> \<open>pass 2\<close>
  let ?notin = "\<lambda>r. ar_artifact_id r \<notin> set (map ar_artifact_id arts)"
  have fresh_B: "st_artifact_id s \<notin> set (map ar_artifact_id arts)" if "s \<in> set B" for s
    using that fresh by (auto simp: B_def arts_def)
  have new_rows: "filter ?notin (map stage_artifact (map upd B)) = map stage_artifact U"
  proof -
    have "filter ?notin (map stage_artifact (map upd B)) =
          map (stage_artifact \<circ> upd) (filter (?notin \<circ> (stage_artifact \<circ> upd)) B)"
      by (simp add: filter_map o_def)
    also have "filter (?notin \<circ> (stage_artifact \<circ> upd)) B = U"
      unfolding U_def
    proof (rule filter_cong[OF refl])
      fix s assume "s \<in> set B"
      from reconciled_in_ids_iff[OF fresh_B[OF this]]
      show "(?notin \<circ> (stage_artifact \<circ> upd)) s = (matching_artifact_ids arts s = [])"
        by (simp add: stage_artifact_def upd_def)
    qed
    also have "map (stage_artifact \<circ> upd) U = map stage_artifact U"
      by (rule map_cong[OF refl]) (simp add: U_def upd_def reconciled_unmatched)
    finally show ?thesis .
  qed
  have "distinct (map st_artifact_id U)"
    using prov unfolding U_def B_def[symmetric] by (rule distinct_map_filter)
  then have d2: "distinct (map ar_artifact_id (filter ?notin (map stage_artifact (map upd B))))"
    unfolding new_rows by (simp add: o_def stage_artifact_def)
  have ioi: "insert_or_ignore arts (map stage_artifact (map upd B)) =
             (arts @ map stage_artifact U, length U)"
    using insert_or_ignore_explicit[OF d2, unfolded new_rows] by simp
  define db2 where "db2 = db1\<lparr>db_artifact := arts @ map stage_artifact U\<rparr>"
  have p2: "pass_2 db1 stage_id source_id batch_id = (db2, length U)"
    unfolding pass_2_def batch1 arts1 Let_def ioi by (simp add: db2_def)
  \<comment> \<open>pass 3\<close>
  have batch2: "filter (in_batch stage_id source_id batch_id) (db_stage db2) = map upd B"
    using batch1 by (simp add: db2_def)
  have gen2: "db_generation db2 = db_generation db" by (simp add: db2_def db1_def)
  have distinct_B: "distinct B" using batch_keys distinct_map B_def by blast
  have inj: "inj_on (reconciled_id arts) (set B)"
    using reconciled_inj_on[OF ids[folded arts_def] batch_keys[folded B_def] prov[folded B_def]]
      fresh by (simp add: B_def arts_def)
  have gk: "generation_key (stage_generation (upd s)) =
            (st_source_id s, unix_micros (st_created_on s), reconciled_id arts s)" for s
    by (simp add: generation_key_def stage_generation_def upd_def)
  have "inj_on (\<lambda>s. generation_key (stage_generation (upd s))) (set B)"
    unfolding gk using inj by (auto simp: inj_on_def)
  then have d3: "distinct (map generation_key (map stage_generation (map upd B)))"
    using distinct_B by (simp add: distinct_map o_def)
  have disj3: "set (map generation_key (map stage_generation (map upd B))) \<inter>
               set (map generation_key (db_generation db)) = {}"
    using gen_fresh unfolding B_def[symmetric] arts_def[symmetric]
    by (auto simp: list_all_iff gk)
  have igr: "insert_generation_rows (db_generation db) (map stage_generation (map upd B)) =
             Inr (db_generation db @ map stage_generation (map upd B))"
    by (rule insert_generation_rows_explicit[OF d3 disj3])
  define db3 where "db3 = db2\<lparr>db_generation := db_generation db @ map stage_generation (map upd B)\<rparr>"
  have p3: "pass_3 db2 stage_id source_id batch_id = Inr (db3, length B)"
    unfolding pass_3_def batch2 gen2 Let_def igr by (simp add: db3_def)
  have "insert_artifact_generation_batch db stage_id source_id batch_id =
        Inr (db3, n1, length U, length B)"
    unfolding insert_artifact_generation_batch_def p1 by (simp add: p2 p3)
  moreover have "db3 = \<lparr>db_stage = map rec (db_stage db),
                        db_artifact = arts @ map stage_artifact U,
                        db_generation = db_generation db @ map (\<lambda>s. stage_generation (upd s)) B\<rparr>"
    by (simp add: db3_def db2_def db1_def)
  ultimately show ?thesis
    by (simp add: rec_def upd_def U_def B_def arts_def n1_def)
qed

subsection \<open>Artifact identity\<close>

definition batch_rows :: "catalog_db \<Rightarrow> string \<Rightarrow> string \<Rightarrow> nat \<Rightarrow> stage_row list" where
  "batch_rows db stage_id source_id batch_id =
     filter (in_batch stage_id source_id batch_id) (db_stage db)"

definition bound_in_generation :: "generation_row list \<Rightarrow> stage_row \<Rightarrow> string \<Rightarrow> bool" where
  "bound_in_generation gens s artifact_id =
     (\<lparr>ge_source_id = st_source_id s, ge_generation_id = unix_micros (st_created_on s),
       ge_artifact_id = artifact_id, ge_created_on = st_created_on s\<rparr> \<in> set gens)"

lemma artifact_key_stage_artifact [simp]: "artifact_key (stage_artifact s) = stage_key s"
  by (simp add: artifact_key_def stage_artifact_def stage_key_def)

lemma disjoint_image:
  "(\<And>s. s \<in> S \<Longrightarrow> f s \<notin> T) \<Longrightarrow> T \<inter> f ` S = {}"
  by auto

text \<open>
  C1 (as amended). Let the artifact table hold one row per artifact id and one artifact
  per (source\_id, external\_id, version); let the rows of the staged batch have pairwise
  distinct (external\_id, version), and provisional artifact ids that are pairwise distinct
  and not yet in the artifact table; and let no generation row exist yet for a row's
  generation and the artifact it will be bound to. Then the promotion succeeds, and after
  it: there is still one artifact per (source\_id, external\_id, version) and one row per
  artifact id; the artifacts that existed are unchanged; every row of the batch is bound,
  in its generation, to the artifact of its (source\_id, external\_id, version); and a row
  that matched an artifact that existed is bound to that artifact's id.
\<close>

theorem promotion_preserves_artifact_identity:
  assumes ids: "distinct (map ar_artifact_id (db_artifact db))"
    and keys: "distinct (map artifact_key (db_artifact db))"
    and batch_keys: "distinct (map stage_key (batch_rows db stage_id source_id batch_id))"
    and prov: "distinct (map st_artifact_id (batch_rows db stage_id source_id batch_id))"
    and fresh: "set (map st_artifact_id (batch_rows db stage_id source_id batch_id)) \<inter>
                set (map ar_artifact_id (db_artifact db)) = {}"
    and gen_fresh: "list_all (\<lambda>s. (st_source_id s, unix_micros (st_created_on s),
                                    reconciled_id (db_artifact db) s)
                                  \<notin> set (map generation_key (db_generation db)))
                      (batch_rows db stage_id source_id batch_id)"
  shows "\<exists>db' counts.
           insert_artifact_generation_batch db stage_id source_id batch_id = Inr (db', counts) \<and>
           distinct (map artifact_key (db_artifact db')) \<and>
           distinct (map ar_artifact_id (db_artifact db')) \<and>
           prefix (db_artifact db) (db_artifact db') \<and>
           (\<forall>s \<in> set (batch_rows db stage_id source_id batch_id).
              \<exists>a \<in> set (db_artifact db').
                 artifact_key a = stage_key s \<and>
                 bound_in_generation (db_generation db') s (ar_artifact_id a)) \<and>
           (\<forall>s \<in> set (batch_rows db stage_id source_id batch_id).
              \<forall>a \<in> set (db_artifact db).
                 artifact_key a = stage_key s \<longrightarrow>
                 bound_in_generation (db_generation db') s (ar_artifact_id a))"
proof -
  define arts where "arts = db_artifact db"
  define B where "B = batch_rows db stage_id source_id batch_id"
  define U where "U = filter (\<lambda>s. matching_artifact_ids arts s = []) B"
  define G where "G = db_generation db @
      map (\<lambda>s. stage_generation (s\<lparr>st_artifact_id := reconciled_id arts s\<rparr>)) B"
  note Bf = B_def[unfolded batch_rows_def]
  from promotion_explicit[OF ids keys batch_keys[unfolded batch_rows_def]
      prov[unfolded batch_rows_def] fresh[unfolded batch_rows_def] gen_fresh[unfolded batch_rows_def]]
  obtain db' counts where
    res: "insert_artifact_generation_batch db stage_id source_id batch_id = Inr (db', counts)"
    and a': "db_artifact db' = arts @ map stage_artifact U"
    and g': "db_generation db' = G"
    by (simp add: arts_def U_def G_def Bf)
  have U_sub: "set U \<subseteq> set B" by (auto simp: U_def)
  \<comment> \<open>one artifact per key\<close>
  have dk: "distinct (map stage_key U)"
    using batch_keys unfolding U_def B_def[symmetric] by (rule distinct_map_filter)
  have "stage_key s \<notin> artifact_key ` set arts" if "s \<in> set U" for s
    using that matched_iff_key[of arts s] by (simp add: U_def)
  then have disjk: "artifact_key ` set arts \<inter> stage_key ` set U = {}" by (rule disjoint_image)
  have mk: "map artifact_key (map stage_artifact U) = map stage_key U" by simp
  have k': "distinct (map artifact_key (db_artifact db'))"
    unfolding a' map_append mk using keys dk disjk by (simp add: arts_def)
  \<comment> \<open>primary key\<close>
  have di: "distinct (map st_artifact_id U)"
    using prov unfolding U_def B_def[symmetric] by (rule distinct_map_filter)
  have "st_artifact_id s \<notin> ar_artifact_id ` set arts" if "s \<in> set U" for s
    using that U_sub fresh by (auto simp: B_def arts_def)
  then have disji: "ar_artifact_id ` set arts \<inter> st_artifact_id ` set U = {}" by (rule disjoint_image)
  have mi: "map ar_artifact_id (map stage_artifact U) = map st_artifact_id U"
    by (simp add: stage_artifact_def)
  have i': "distinct (map ar_artifact_id (db_artifact db'))"
    unfolding a' map_append mi using ids di disji by (simp add: arts_def)
  have p': "prefix (db_artifact db) (db_artifact db')" by (simp add: a' arts_def)
  \<comment> \<open>generation rows\<close>
  have bound: "bound_in_generation G s (reconciled_id arts s)" if "s \<in> set B" for s
  proof -
    have "stage_generation (s\<lparr>st_artifact_id := reconciled_id arts s\<rparr>) \<in> set G"
      using that by (simp add: G_def)
    then show ?thesis by (simp add: bound_in_generation_def stage_generation_def)
  qed
  have each: "\<exists>a \<in> set (db_artifact db').
                 artifact_key a = stage_key s \<and> bound_in_generation (db_generation db') s (ar_artifact_id a)"
    if s: "s \<in> set B" for s
  proof (cases "matching_artifact_ids arts s = []")
    case True
    then have "s \<in> set U" using s by (simp add: U_def)
    then have "stage_artifact s \<in> set (db_artifact db')" by (simp add: a')
    moreover have "ar_artifact_id (stage_artifact s) = reconciled_id arts s"
      using True by (simp add: reconciled_unmatched stage_artifact_def)
    ultimately show ?thesis using bound[OF s] g' artifact_key_stage_artifact by metis
  next
    case False
    from matched_artifact[OF False] obtain a where
      "a \<in> set arts" "artifact_key a = stage_key s" "ar_artifact_id a = reconciled_id arts s"
      by blast
    moreover from this have "a \<in> set (db_artifact db')" by (simp add: a')
    ultimately show ?thesis using bound[OF s] g' by metis
  qed
  have old: "bound_in_generation (db_generation db') s (ar_artifact_id a)"
    if "s \<in> set B" "a \<in> set (db_artifact db)" "artifact_key a = stage_key s" for s a
    using reconciled_of_key[OF keys that(2,3)] bound[OF that(1)] g' by (simp add: arts_def)
  show ?thesis
    using res k' i' p' each old unfolding B_def[symmetric] by blast
qed

definition twice_listed_db :: catalog_db where
  "twice_listed_db =
     \<lparr>db_stage =
        [\<lparr>st_stage_id = ''s1'', st_batch_id = 0, st_source_id = ''src'', st_external_id = ''x.txt'',
          st_version = ''v1'', st_content_length = 3, st_content_type = ''text/plain'',
          st_created_on = 100, st_artifact_id = ''p1''\<rparr>,
         \<lparr>st_stage_id = ''s1'', st_batch_id = 0, st_source_id = ''src'', st_external_id = ''x.txt'',
          st_version = ''v1'', st_content_length = 3, st_content_type = ''text/plain'',
          st_created_on = 100, st_artifact_id = ''p2''\<rparr>],
      db_artifact = [], db_generation = []\<rparr>"

definition artifact_identities ::
  "db_error + (catalog_db \<times> nat \<times> nat \<times> nat) \<Rightarrow> db_error + ((string \<times> string \<times> string) \<times> string) list" where
  "artifact_identities r =
     map_sum id (\<lambda>(db', counts). map (\<lambda>a. (artifact_key a, ar_artifact_id a)) (db_artifact db')) r"

text \<open>
  C1 as stated fails for a batch that lists one artifact twice: both provisional ids
  become artifacts, so one (source\_id, external\_id, version) has two artifact ids.
\<close>

theorem promotion_two_ids_for_one_key:
  "artifact_identities (insert_artifact_generation_batch twice_listed_db ''s1'' ''src'' 0) =
     Inr [((''src'', ''x.txt'', ''v1''), ''p1''), ((''src'', ''x.txt'', ''v1''), ''p2'')]"
  by (simp add: artifact_identities_def insert_artifact_generation_batch_def pass_1_def pass_2_def
      pass_3_def twice_listed_db_def in_batch_def matching_artifact_ids_def stage_artifact_def
      stage_generation_def generation_key_def artifact_key_def unix_micros_def Let_def)

text \<open>A second intake cycle: one listed artifact is known, one is new.\<close>

definition second_intake_db :: catalog_db where
  "second_intake_db =
     \<lparr>db_stage =
        [\<lparr>st_stage_id = ''s2'', st_batch_id = 0, st_source_id = ''src'', st_external_id = ''x.txt'',
          st_version = ''v1'', st_content_length = 3, st_content_type = ''text/plain'',
          st_created_on = 200, st_artifact_id = ''p1''\<rparr>,
         \<lparr>st_stage_id = ''s2'', st_batch_id = 0, st_source_id = ''src'', st_external_id = ''y.txt'',
          st_version = ''v1'', st_content_length = 5, st_content_type = ''text/plain'',
          st_created_on = 200, st_artifact_id = ''p2''\<rparr>],
      db_artifact =
        [\<lparr>ar_artifact_id = ''a1'', ar_source_id = ''src'', ar_external_id = ''x.txt'',
          ar_version = ''v1'', ar_content_type = ''text/plain'', ar_content_length = 3,
          ar_created_on = 100\<rparr>],
      db_generation =
        [\<lparr>ge_source_id = ''src'', ge_generation_id = 100, ge_artifact_id = ''a1'',
          ge_created_on = 100\<rparr>]\<rparr>"

lemmas promotion_eval_defs =
  batch_rows_def in_batch_def matching_artifact_ids_def stage_key_def artifact_key_def
  reconciled_id_def generation_key_def unix_micros_def

theorem promotion_preserves_artifact_identity_witness:
  "distinct (map ar_artifact_id (db_artifact second_intake_db)) \<and>
   distinct (map artifact_key (db_artifact second_intake_db)) \<and>
   distinct (map stage_key (batch_rows second_intake_db ''s2'' ''src'' 0)) \<and>
   distinct (map st_artifact_id (batch_rows second_intake_db ''s2'' ''src'' 0)) \<and>
   set (map st_artifact_id (batch_rows second_intake_db ''s2'' ''src'' 0)) \<inter>
     set (map ar_artifact_id (db_artifact second_intake_db)) = {} \<and>
   length (batch_rows second_intake_db ''s2'' ''src'' 0) = 2 \<and>
   (\<exists>db' counts.
      insert_artifact_generation_batch second_intake_db ''s2'' ''src'' 0 = Inr (db', counts) \<and>
      distinct (map artifact_key (db_artifact db')) \<and>
      distinct (map ar_artifact_id (db_artifact db')) \<and>
      prefix (db_artifact second_intake_db) (db_artifact db') \<and>
      (\<forall>s \<in> set (batch_rows second_intake_db ''s2'' ''src'' 0).
         \<exists>a \<in> set (db_artifact db').
            artifact_key a = stage_key s \<and>
            bound_in_generation (db_generation db') s (ar_artifact_id a)) \<and>
      (\<forall>s \<in> set (batch_rows second_intake_db ''s2'' ''src'' 0).
         \<forall>a \<in> set (db_artifact second_intake_db).
            artifact_key a = stage_key s \<longrightarrow>
            bound_in_generation (db_generation db') s (ar_artifact_id a)))"
proof -
  have h1: "distinct (map ar_artifact_id (db_artifact second_intake_db))"
    by (simp add: second_intake_db_def)
  have h2: "distinct (map artifact_key (db_artifact second_intake_db))"
    by (simp add: second_intake_db_def)
  have h3: "distinct (map stage_key (batch_rows second_intake_db ''s2'' ''src'' 0))"
    by (simp add: second_intake_db_def promotion_eval_defs)
  have h4: "distinct (map st_artifact_id (batch_rows second_intake_db ''s2'' ''src'' 0))"
    by (simp add: second_intake_db_def promotion_eval_defs)
  have h5: "set (map st_artifact_id (batch_rows second_intake_db ''s2'' ''src'' 0)) \<inter>
     set (map ar_artifact_id (db_artifact second_intake_db)) = {}"
    by (simp add: second_intake_db_def promotion_eval_defs)
  have h6: "list_all (\<lambda>s. (st_source_id s, unix_micros (st_created_on s),
                                    reconciled_id (db_artifact second_intake_db) s)
                                  \<notin> set (map generation_key (db_generation second_intake_db)))
                      (batch_rows second_intake_db ''s2'' ''src'' 0)"
    by (simp add: second_intake_db_def promotion_eval_defs)
  have l: "length (batch_rows second_intake_db ''s2'' ''src'' 0) = 2"
    by (simp add: second_intake_db_def promotion_eval_defs)
  from promotion_preserves_artifact_identity[OF h1 h2 h3 h4 h5 h6] h1 h2 h3 h4 h5 l
  show ?thesis by blast
qed

section \<open>Intake: staging and the decision to promote\<close>

text \<open>
  \<^verbatim>\<open>cif/intake.py\<close>, with the catalog queries it calls. \<^verbatim>\<open>uuid4().hex\<close> is a supply of
  identifiers, a function from the number of the draw to the identifier, with the number
  of draws made so far passed along; \<^verbatim>\<open>now()\<close> is a given timestamp.
\<close>

record fingerprint =
  fp_content_type :: string
  fp_content_length :: int
  fp_version :: string

record generation_model =
  gm_source_id :: string
  gm_generation_id :: int
  gm_created_on :: int

text \<open>
  Modelled from the spec: \<^verbatim>\<open>batcher\<close> of \<^verbatim>\<open>cif/util.py\<close>, which is not among the
  sources. By the spec and the tests of \<^verbatim>\<open>tests/test_util.py\<close> it cuts a sequence into
  consecutive batches of \<^verbatim>\<open>batch_size\<close> elements, the last one shorter when the length
  is not a multiple, and yields no empty batch.
\<close>

function batcher :: "'a list \<Rightarrow> nat \<Rightarrow> 'a list list" where
  "batcher xs batch_size =
     (if xs = [] \<or> batch_size = 0 then []
      else take batch_size xs # batcher (drop batch_size xs) batch_size)"
  by pat_completeness auto
termination
  by (relation "measure (\<lambda>(xs, n). length xs)") auto

declare batcher.simps [simp del]

text \<open>\<^verbatim>\<open>get_latest_generation\<close>: the first row of the source's generation rows in
  descending order of \<^verbatim>\<open>generation_id\<close>, as a \<^verbatim>\<open>GenerationModel\<close>.\<close>

definition generation_model_of :: "generation_row \<Rightarrow> generation_model" where
  "generation_model_of g =
     \<lparr>gm_source_id = ge_source_id g, gm_generation_id = ge_generation_id g,
      gm_created_on = ge_created_on g\<rparr>"

definition get_latest_generation :: "catalog_db \<Rightarrow> string \<Rightarrow> generation_model option" where
  "get_latest_generation db source_id =
     (case filter (\<lambda>g. ge_source_id g = source_id) (db_generation db) of
        [] \<Rightarrow> None
      | g # gs \<Rightarrow>
          Some (generation_model_of
                  (fold (\<lambda>x best. if ge_generation_id best < ge_generation_id x then x else best)
                     gs g)))"

text \<open>The two counts of the change detection, as the SQL has them.\<close>

definition count_inserted_updated :: "catalog_db \<Rightarrow> string \<Rightarrow> string \<Rightarrow> int \<Rightarrow> nat" where
  "count_inserted_updated db stage_id source_id generation_id =
     length
       (filter
          (\<lambda>s. st_stage_id s = stage_id \<and> st_source_id s = source_id \<and>
               \<not> list_ex
                    (\<lambda>(g, a). ar_source_id a = ge_source_id g \<and> ar_artifact_id a = ge_artifact_id g \<and>
                              ge_generation_id g = generation_id \<and>
                              ge_source_id g = st_source_id s \<and>
                              ar_external_id a = st_external_id s \<and> ar_version a = st_version s)
                    (List.product (db_generation db) (db_artifact db)))
          (db_stage db))"

definition count_deleted :: "catalog_db \<Rightarrow> string \<Rightarrow> string \<Rightarrow> int \<Rightarrow> nat" where
  "count_deleted db stage_id source_id generation_id =
     length
       (filter
          (\<lambda>(g, a). ge_source_id g = ar_source_id a \<and> ge_artifact_id g = ar_artifact_id a \<and>
                    ge_source_id g = source_id \<and> ge_generation_id g = generation_id \<and>
                    \<not> list_ex
                         (\<lambda>s. st_stage_id s = stage_id \<and> st_source_id s = source_id \<and>
                              st_source_id s = ar_source_id a \<and>
                              st_external_id s = ar_external_id a \<and> st_version s = ar_version a)
                         (db_stage db))
          (List.product (db_generation db) (db_artifact db)))"

text \<open>\<^verbatim>\<open>insert_stage_batch\<close> and \<^verbatim>\<open>Intake._stage\<close>: every listed artifact becomes a
  stage row with a provisional artifact id.\<close>

definition insert_stage_batch ::
  "(nat \<Rightarrow> string) \<Rightarrow> nat \<Rightarrow> catalog_db \<Rightarrow> string \<Rightarrow> string \<Rightarrow> nat
     \<Rightarrow> (string \<times> fingerprint) list \<Rightarrow> int \<Rightarrow> catalog_db \<times> nat \<times> nat" where
  "insert_stage_batch uuid4_hex n db stage_id source_id batch_id batch_artifacts created_on =
     (let values =
            map (\<lambda>(i, (external_id, fingerprint)).
                   \<lparr>st_stage_id = stage_id, st_batch_id = batch_id, st_source_id = source_id,
                    st_external_id = external_id, st_version = fp_version fingerprint,
                    st_content_length = fp_content_length fingerprint,
                    st_content_type = fp_content_type fingerprint,
                    st_created_on = created_on, st_artifact_id = uuid4_hex (n + i)\<rparr>)
                (zip [0..<length batch_artifacts] batch_artifacts)
      in (db\<lparr>db_stage := db_stage db @ values\<rparr>, n + length batch_artifacts, length values))"

fun stage_batches ::
  "(nat \<Rightarrow> string) \<Rightarrow> nat \<Rightarrow> catalog_db \<Rightarrow> string \<Rightarrow> string \<Rightarrow> int \<Rightarrow> nat
     \<Rightarrow> (string \<times> fingerprint) list list \<Rightarrow> catalog_db \<times> nat \<times> nat" where
  "stage_batches uuid4_hex n db stage_id source_id created_on batch_id [] = (db, n, batch_id)"
| "stage_batches uuid4_hex n db stage_id source_id created_on batch_id (batch_artifacts # rest) =
     (let (db', n', rows) =
            insert_stage_batch uuid4_hex n db stage_id source_id batch_id batch_artifacts created_on
      in stage_batches uuid4_hex n' db' stage_id source_id created_on (batch_id + 1) rest)"

definition stage_listing ::
  "(nat \<Rightarrow> string) \<Rightarrow> nat \<Rightarrow> catalog_db \<Rightarrow> string \<Rightarrow> (string \<times> fingerprint) list
     \<Rightarrow> string \<Rightarrow> int \<Rightarrow> catalog_db \<times> nat \<times> nat" where
  "stage_listing uuid4_hex n db source_id artifacts stage_id created_on =
     stage_batches uuid4_hex n db stage_id source_id created_on 0 (batcher artifacts BATCH_SIZE)"

text \<open>\<^verbatim>\<open>Intake._create_new_generation\<close>: one transaction per batch; an error of a
  batch propagates.\<close>

fun create_new_generation ::
  "catalog_db \<Rightarrow> string \<Rightarrow> string \<Rightarrow> nat list \<Rightarrow> nat \<times> nat \<times> nat
     \<Rightarrow> db_error + (catalog_db \<times> nat \<times> nat \<times> nat)" where
  "create_new_generation db stage_id source_id [] counts = Inr (db, counts)"
| "create_new_generation db stage_id source_id (batch_id # rest) (c1, c2, c3) =
     (case insert_artifact_generation_batch db stage_id source_id batch_id of
        Inl e \<Rightarrow> Inl e
      | Inr (db', b1, b2, b3) \<Rightarrow>
          create_new_generation db' stage_id source_id rest (c1 + b1, c2 + b2, c3 + b3))"

definition choose_stage_id :: "(nat \<Rightarrow> string) \<Rightarrow> nat \<Rightarrow> string option \<Rightarrow> string \<times> nat" where
  "choose_stage_id uuid4_hex n use_stage_id =
     (case use_stage_id of
        Some s \<Rightarrow> if s \<noteq> [] then (s, n) else (uuid4_hex n, n + 1)
      | None \<Rightarrow> (uuid4_hex n, n + 1))"

definition choose_created_on :: "int \<Rightarrow> int option \<Rightarrow> int" where
  "choose_created_on now use_created_on = (case use_created_on of Some t \<Rightarrow> t | None \<Rightarrow> now)"

definition intake ::
  "(nat \<Rightarrow> string) \<Rightarrow> nat \<Rightarrow> int \<Rightarrow> catalog_db \<Rightarrow> string \<Rightarrow> (string \<times> fingerprint) list
     \<Rightarrow> string option \<Rightarrow> int option \<Rightarrow> db_error + (catalog_db \<times> generation_model option)" where
  "intake uuid4_hex n now db source_id artifacts use_stage_id use_created_on =
     (let (stage_id, n0) = choose_stage_id uuid4_hex n use_stage_id;
          created_on = choose_created_on now use_created_on;
          (db1, n1, num_batches) =
             stage_listing uuid4_hex n0 db source_id artifacts stage_id created_on;
          promote = (case create_new_generation db1 stage_id source_id [0..<num_batches] (0, 0, 0) of
                       Inl e \<Rightarrow> Inl e
                     | Inr (db2, counts) \<Rightarrow> Inr (db2, get_latest_generation db2 source_id))
      in if num_batches = 0 then Inr (db1, None)
         else case get_latest_generation db1 source_id of
                Some latest \<Rightarrow>
                  if count_inserted_updated db1 stage_id source_id (gm_generation_id latest) = 0 \<and>
                     count_deleted db1 stage_id source_id (gm_generation_id latest) = 0
                  then Inr (db1, None)
                  else promote
              | None \<Rightarrow> promote)"

lemma insert_stage_batch_tables:
  "insert_stage_batch u n db sid src bid arts t = (db', n', rows) \<Longrightarrow>
   db_artifact db' = db_artifact db \<and> db_generation db' = db_generation db \<and>
   prefix (db_stage db) (db_stage db')"
  by (auto simp: insert_stage_batch_def Let_def)

lemma stage_batches_tables:
  "stage_batches u n db sid src t bid batches = (db', n', k) \<Longrightarrow>
   db_artifact db' = db_artifact db \<and> db_generation db' = db_generation db \<and>
   prefix (db_stage db) (db_stage db')"
proof (induction batches arbitrary: n db bid)
  case Nil
  then show ?case by simp
next
  case (Cons b batches)
  obtain db1 n1 rows where 1: "insert_stage_batch u n db sid src bid b t = (db1, n1, rows)"
    by (cases "insert_stage_batch u n db sid src bid b t") auto
  with Cons.prems have "stage_batches u n1 db1 sid src t (bid + 1) batches = (db', n', k)"
    by simp
  from Cons.IH[OF this] insert_stage_batch_tables[OF 1] show ?case
    by (metis prefix_order.order_trans)
qed

lemma get_latest_generation_cong:
  "db_generation db' = db_generation db \<Longrightarrow>
   get_latest_generation db' source_id = get_latest_generation db source_id"
  by (simp add: get_latest_generation_def)

lemma concat_batcher: "0 < k \<Longrightarrow> concat (batcher xs k) = xs"
proof (induction xs k rule: batcher.induct)
  case (1 xs k)
  show ?case
  proof (cases "xs = []")
    case True
    then show ?thesis by (subst batcher.simps) simp
  next
    case False
    with 1 have "concat (batcher (drop k xs) k) = drop k xs" by simp
    with False 1(2) show ?thesis by (subst batcher.simps) simp
  qed
qed

lemma stage_batches_rows:
  "stage_batches u n db sid src t bid batches = (db', n', k) \<Longrightarrow>
   length (db_stage db') = length (db_stage db) + length (concat batches)"
proof (induction batches arbitrary: n db bid)
  case Nil
  then show ?case by simp
next
  case (Cons b batches)
  obtain db1 n1 rows where 1: "insert_stage_batch u n db sid src bid b t = (db1, n1, rows)"
    by (cases "insert_stage_batch u n db sid src bid b t") auto
  then have l: "length (db_stage db1) = length (db_stage db) + length b"
    by (auto simp: insert_stage_batch_def Let_def)
  from 1 Cons.prems have "stage_batches u n1 db1 sid src t (bid + 1) batches = (db', n', k)"
    by simp
  from Cons.IH[OF this] l show ?case by simp
qed

lemma batcher_one_batch:
  assumes "xs \<noteq> []" and "length xs \<le> k"
  shows "batcher xs k = [xs]"
proof -
  have "0 < k" using assms by (cases xs) auto
  then show ?thesis using assms by (subst batcher.simps, subst batcher.simps) simp
qed

text \<open>
  C2. For every source with a latest generation: when, after staging, the count of
  inserted or updated rows and the count of deleted artifacts against that generation are
  both zero, \<^verbatim>\<open>intake\<close> returns \<^verbatim>\<open>None\<close> without promoting. The artifact and generation
  tables are as before, so the latest generation is unchanged, and the rows staged by this
  cycle remain in the stage table.
\<close>

theorem intake_no_change:
  assumes sid: "choose_stage_id uuid4_hex n use_stage_id = (stage_id, n0)"
    and staged: "stage_listing uuid4_hex n0 db source_id artifacts stage_id
                   (choose_created_on now use_created_on) = (db1, n1, num_batches)"
    and latest: "get_latest_generation db source_id = Some latest"
    and inserted_updated: "count_inserted_updated db1 stage_id source_id (gm_generation_id latest) = 0"
    and deleted: "count_deleted db1 stage_id source_id (gm_generation_id latest) = 0"
  shows "intake uuid4_hex n now db source_id artifacts use_stage_id use_created_on = Inr (db1, None) \<and>
         db_artifact db1 = db_artifact db \<and>
         db_generation db1 = db_generation db \<and>
         get_latest_generation db1 source_id = Some latest \<and>
         prefix (db_stage db) (db_stage db1) \<and>
         length (db_stage db1) = length (db_stage db) + length artifacts"
proof -
  from staged have sb: "stage_batches uuid4_hex n0 db stage_id source_id
      (choose_created_on now use_created_on) 0 (batcher artifacts BATCH_SIZE) = (db1, n1, num_batches)"
    by (simp add: stage_listing_def)
  from stage_batches_tables[OF sb]
  have tabs: "db_artifact db1 = db_artifact db" "db_generation db1 = db_generation db"
    "prefix (db_stage db) (db_stage db1)" by simp_all
  have l1: "get_latest_generation db1 source_id = Some latest"
    using get_latest_generation_cong[OF tabs(2)] latest by simp
  have rows: "length (db_stage db1) = length (db_stage db) + length artifacts"
    using stage_batches_rows[OF sb] concat_batcher[of BATCH_SIZE artifacts]
    by (simp add: BATCH_SIZE_def)
  have "intake uuid4_hex n now db source_id artifacts use_stage_id use_created_on = Inr (db1, None)"
    unfolding intake_def sid using staged l1 inserted_updated deleted by (simp add: Let_def)
  with tabs l1 rows show ?thesis by simp
qed

text \<open>A source with one generation of one artifact, listed again unchanged.\<close>

definition one_generation_db :: catalog_db where
  "one_generation_db =
     \<lparr>db_stage = [],
      db_artifact =
        [\<lparr>ar_artifact_id = ''a1'', ar_source_id = ''src'', ar_external_id = ''x.txt'',
          ar_version = ''v1'', ar_content_type = ''text/plain'', ar_content_length = 3,
          ar_created_on = 100\<rparr>],
      db_generation =
        [\<lparr>ge_source_id = ''src'', ge_generation_id = 100, ge_artifact_id = ''a1'',
          ge_created_on = 100\<rparr>]\<rparr>"

definition unchanged_listing :: "(string \<times> fingerprint) list" where
  "unchanged_listing =
     [(''x.txt'', \<lparr>fp_content_type = ''text/plain'', fp_content_length = 3, fp_version = ''v1''\<rparr>)]"

definition restaged_db :: catalog_db where
  "restaged_db =
     one_generation_db\<lparr>db_stage :=
        [\<lparr>st_stage_id = ''s2'', st_batch_id = 0, st_source_id = ''src'', st_external_id = ''x.txt'',
          st_version = ''v1'', st_content_length = 3, st_content_type = ''text/plain'',
          st_created_on = 200, st_artifact_id = ''p0''\<rparr>]\<rparr>"

theorem intake_no_change_witness:
  "get_latest_generation one_generation_db ''src'' =
     Some \<lparr>gm_source_id = ''src'', gm_generation_id = 100, gm_created_on = 100\<rparr> \<and>
   count_inserted_updated restaged_db ''s2'' ''src'' 100 = 0 \<and>
   count_deleted restaged_db ''s2'' ''src'' 100 = 0 \<and>
   intake (\<lambda>i. ''p'' @ str_nat i) 0 300 one_generation_db ''src'' unchanged_listing
     (Some ''s2'') (Some 200) = Inr (restaged_db, None) \<and>
   db_generation restaged_db = db_generation one_generation_db \<and>
   length (db_stage restaged_db) = 1"
proof -
  let ?latest = "\<lparr>gm_source_id = ''src'', gm_generation_id = 100, gm_created_on = 100\<rparr>"
  have sid: "choose_stage_id (\<lambda>i. ''p'' @ str_nat i) 0 (Some ''s2'') = (''s2'', 0)"
    by (simp add: choose_stage_id_def)
  have b: "batcher unchanged_listing BATCH_SIZE = [unchanged_listing]"
    by (rule batcher_one_batch) (simp_all add: unchanged_listing_def BATCH_SIZE_def)
  have staged: "stage_listing (\<lambda>i. ''p'' @ str_nat i) 0 one_generation_db ''src'' unchanged_listing ''s2''
                   (choose_created_on 300 (Some 200)) = (restaged_db, 1, 1)"
    unfolding stage_listing_def b
    by (simp add: insert_stage_batch_def unchanged_listing_def one_generation_db_def
        restaged_db_def choose_created_on_def digit_char_def Let_def)
  have latest: "get_latest_generation one_generation_db ''src'' = Some ?latest"
    by (simp add: get_latest_generation_def one_generation_db_def generation_model_of_def)
  have iu: "count_inserted_updated restaged_db ''s2'' ''src'' (gm_generation_id ?latest) = 0"
    by (simp add: count_inserted_updated_def restaged_db_def one_generation_db_def)
  have del: "count_deleted restaged_db ''s2'' ''src'' (gm_generation_id ?latest) = 0"
    by (simp add: count_deleted_def restaged_db_def one_generation_db_def)
  from intake_no_change[OF sid staged latest iu del] latest iu del
  show ?thesis by (simp add: unchanged_listing_def one_generation_db_def)
qed

section \<open>Text: bytes and strings\<close>

text \<open>
  Bytes are a list of characters of eight bits. A Python \<^verbatim>\<open>str\<close> is held as its UTF-8
  encoding: \<^verbatim>\<open>bytes.decode("utf-8")\<close> returns the bytes it is given when they are
  well-formed UTF-8 and raises \<^verbatim>\<open>UnicodeDecodeError\<close> otherwise, \<^verbatim>\<open>str.encode("utf-8")\<close>
  returns the bytes held, and the length of a \<^verbatim>\<open>str\<close> is the number of its code points,
  the bytes that are not continuation bytes.

  Well-formed UTF-8 is: one byte below 0x80; a lead byte 0xC2 to 0xDF with one continuation
  byte; 0xE0 to 0xEF with two, excluding overlong forms and surrogates; 0xF0 to 0xF4 with
  three, excluding overlong forms and code points above 0x10FFFF.
\<close>

definition continuation :: "nat \<Rightarrow> bool" where
  "continuation b = (128 \<le> b \<and> b \<le> 191)"

fun utf8_valid :: "nat list \<Rightarrow> bool" where
  "utf8_valid [] = True"
| "utf8_valid (b # bs) =
     (if b < 128 then utf8_valid bs
      else if 194 \<le> b \<and> b \<le> 223 then
        (case bs of c1 # rest \<Rightarrow> continuation c1 \<and> utf8_valid rest | _ \<Rightarrow> False)
      else if 224 \<le> b \<and> b \<le> 239 then
        (case bs of
           c1 # c2 # rest \<Rightarrow>
             continuation c1 \<and> continuation c2 \<and>
             (if b = 224 then 160 \<le> c1 else True) \<and> (if b = 237 then c1 \<le> 159 else True) \<and>
             utf8_valid rest
         | _ \<Rightarrow> False)
      else if 240 \<le> b \<and> b \<le> 244 then
        (case bs of
           c1 # c2 # c3 # rest \<Rightarrow>
             continuation c1 \<and> continuation c2 \<and> continuation c3 \<and>
             (if b = 240 then 144 \<le> c1 else True) \<and> (if b = 244 then c1 \<le> 143 else True) \<and>
             utf8_valid rest
         | _ \<Rightarrow> False)
      else False)"

definition decode_utf8 :: "string \<Rightarrow> py_error + string" where
  "decode_utf8 data = (if utf8_valid (map of_char data) then Inr data else Inl UnicodeDecodeError)"

definition py_len :: "string \<Rightarrow> nat" where
  "py_len s = length (filter (\<lambda>c. \<not> continuation (of_char c)) s)"

text \<open>
  An incremental decoder is given the bytes piece by piece. It raises as soon as the bytes
  it has seen cannot be the beginning of well-formed UTF-8; a sequence cut by the end of
  the piece is kept for the next piece. \<^verbatim>\<open>utf8_viable\<close> holds for the bytes that do not
  make it raise.
\<close>

fun utf8_viable :: "nat list \<Rightarrow> bool" where
  "utf8_viable [] = True"
| "utf8_viable (b # bs) =
     (if b < 128 then utf8_viable bs
      else if 194 \<le> b \<and> b \<le> 223 then
        (case bs of
           [] \<Rightarrow> True
         | c1 # rest \<Rightarrow> continuation c1 \<and> utf8_viable rest)
      else if 224 \<le> b \<and> b \<le> 239 then
        (case bs of
           [] \<Rightarrow> True
         | [c1] \<Rightarrow>
             continuation c1 \<and>
             (if b = 224 then 160 \<le> c1 else True) \<and> (if b = 237 then c1 \<le> 159 else True)
         | c1 # c2 # rest \<Rightarrow>
             continuation c1 \<and> continuation c2 \<and>
             (if b = 224 then 160 \<le> c1 else True) \<and> (if b = 237 then c1 \<le> 159 else True) \<and>
             utf8_viable rest)
      else if 240 \<le> b \<and> b \<le> 244 then
        (case bs of
           [] \<Rightarrow> True
         | [c1] \<Rightarrow>
             continuation c1 \<and>
             (if b = 240 then 144 \<le> c1 else True) \<and> (if b = 244 then c1 \<le> 143 else True)
         | [c1, c2] \<Rightarrow>
             continuation c1 \<and> continuation c2 \<and>
             (if b = 240 then 144 \<le> c1 else True) \<and> (if b = 244 then c1 \<le> 143 else True)
         | c1 # c2 # c3 # rest \<Rightarrow>
             continuation c1 \<and> continuation c2 \<and> continuation c3 \<and>
             (if b = 240 then 144 \<le> c1 else True) \<and> (if b = 244 then c1 \<le> 143 else True) \<and>
             utf8_viable rest)
      else False)"

section \<open>Connector: line chunks of a blob\<close>

text \<open>
  \<^verbatim>\<open>BucketConnector.calc_line_chunks\<close> of \<^verbatim>\<open>cif/connector.py\<close>. A blob is its content, a
  list of bytes; the bucket is a lookup from the external id. The blob is opened with
  \<^verbatim>\<open>blob.open("rt")\<close> and read line by line; the encoding of the text is taken to be UTF-8,
  as the loop's own \<^verbatim>\<open>buf.encode("utf-8")\<close> has it. Text mode reads with universal
  newlines: a line ends at a line feed, at a carriage return, or at a carriage return
  followed by a line feed, and in each case the line handed to the program ends with a
  single line feed. The length of \<^verbatim>\<open>buf.encode("utf-8")\<close> is the number of bytes of the lines
  as handed over.
\<close>

definition LF :: char where "LF = CHR 0x0A"
definition CR :: char where "CR = CHR 0x0D"

fun text_lines_from :: "string \<Rightarrow> string \<Rightarrow> string list" where
  "text_lines_from cur [] = (if cur = [] then [] else [cur])"
| "text_lines_from cur (c # cs) =
     (if c = LF then (cur @ [LF]) # text_lines_from [] cs
      else if c = CR then
        (case cs of
           [] \<Rightarrow> [cur @ [LF]]
         | d # ds \<Rightarrow> if d = LF then (cur @ [LF]) # text_lines_from [] ds
                     else (cur @ [LF]) # text_lines_from [] cs)
      else text_lines_from (cur @ [c]) cs)"

definition text_lines :: "string \<Rightarrow> string list" where
  "text_lines content = text_lines_from [] content"

text \<open>
  The text wrapper of the standard library reads and decodes the bytes 8192 at a time, and
  hands over a line as soon as its end has been decoded. When the content is not
  well-formed UTF-8, the read that meets the malformed bytes raises
  \<^verbatim>\<open>UnicodeDecodeError\<close>, after the lines that end within the reads before it have been
  handed over; bytes cut by the end of the content make the closing read raise. A carriage
  return is the end of a line once the byte after it has been seen. \<^verbatim>\<open>text_mode_lines\<close>
  gives the lines handed over and the exception that ends the reading, if any.
\<close>

fun complete_lines_from :: "string \<Rightarrow> string \<Rightarrow> string list" where
  "complete_lines_from cur [] = []"
| "complete_lines_from cur (c # cs) =
     (if c = LF then (cur @ [LF]) # complete_lines_from [] cs
      else if c = CR then
        (case cs of
           [] \<Rightarrow> []
         | d # ds \<Rightarrow> if d = LF then (cur @ [LF]) # complete_lines_from [] ds
                     else (cur @ [LF]) # complete_lines_from [] cs)
      else complete_lines_from (cur @ [c]) cs)"

definition read_size :: nat where "read_size = 8192"

definition reads_decoded :: "string \<Rightarrow> nat" where
  "reads_decoded content =
     (let reads = (length content + read_size - 1) div read_size
      in case find (\<lambda>i. \<not> utf8_viable (map of_char (take ((i + 1) * read_size) content)))
                [0..<reads] of
           Some i \<Rightarrow> i
         | None \<Rightarrow> reads)"

definition text_mode_lines :: "string \<Rightarrow> string list \<times> py_error option" where
  "text_mode_lines content =
     (if utf8_valid (map of_char content) then (text_lines content, None)
      else (complete_lines_from [] (take (reads_decoded content * read_size) content),
            Some UnicodeDecodeError))"

text \<open>
  The generator \<^verbatim>\<open>stream_blob\<close>: the ranges it yields and the exception that ends it, if
  any. \<^verbatim>\<open>line_num\<close> starts at 1; the modulus raises \<^verbatim>\<open>ZeroDivisionError\<close> for zero lines
  per chunk; \<^verbatim>\<open>read_error\<close> is the exception that the reading of the next line raises
  after the last of the lines.
\<close>

fun stream_blob ::
  "nat \<Rightarrow> int \<Rightarrow> py_error option \<Rightarrow> nat \<Rightarrow> int \<Rightarrow> string \<Rightarrow> string list
     \<Rightarrow> (int \<times> int) list \<times> py_error option" where
  "stream_blob lines_per_chunk blob_size read_error line_num start buf [] =
     (case read_error of
        Some e \<Rightarrow> ([], Some e)
      | None \<Rightarrow> (if start < blob_size then [(start, blob_size)] else [], None))"
| "stream_blob lines_per_chunk blob_size read_error line_num start buf (line # lines) =
     (let buf' = buf @ line
      in if lines_per_chunk = 0 then ([], Some ZeroDivisionError)
         else if line_num mod lines_per_chunk = 0 then
           (let end_byte = start + int (length buf');
                (chunks, e) =
                   stream_blob lines_per_chunk blob_size read_error (line_num + 1) end_byte [] lines
            in ((start, end_byte - 1) # chunks, e))
         else stream_blob lines_per_chunk blob_size read_error (line_num + 1) start buf' lines)"

text \<open>
  \<^verbatim>\<open>calc_line_chunks\<close> raises \<^verbatim>\<open>ValueError\<close> when there is no blob, and returns the
  generator otherwise. \<^verbatim>\<open>line_chunks_yielded\<close> gives the ranges that a loop over the result
  receives and the exception that ends the loop, if any; \<^verbatim>\<open>calc_line_chunks\<close> below is the
  generator consumed to its end: all its ranges, or the exception.
\<close>

definition line_chunks_yielded ::
  "(string \<Rightarrow> string option) \<Rightarrow> string \<Rightarrow> nat \<Rightarrow> (int \<times> int) list \<times> py_error option" where
  "line_chunks_yielded get_blob external_id lines_per_chunk =
     (case get_blob external_id of
        None \<Rightarrow> ([], Some ValueError)
      | Some content \<Rightarrow>
          (let (lines, read_error) = text_mode_lines content
           in stream_blob lines_per_chunk (int (length content)) read_error 1 0 [] lines))"

definition calc_line_chunks ::
  "(string \<Rightarrow> string option) \<Rightarrow> string \<Rightarrow> nat \<Rightarrow> py_error + (int \<times> int) list" where
  "calc_line_chunks get_blob external_id lines_per_chunk =
     (case line_chunks_yielded get_blob external_id lines_per_chunk of
        (chunks, None) \<Rightarrow> Inr chunks
      | (chunks, Some e) \<Rightarrow> Inl e)"

text \<open>A file of two lines, each ended by a carriage return and a line feed.\<close>

definition crlf_content :: string where
  "crlf_content = [CHR ''a'', CR, LF, CHR ''b'', CR, LF]"

text \<open>The ranges of consecutive chunks of the given byte lengths, the first starting at
  \<^verbatim>\<open>start\<close>; both ends of a range are inclusive.\<close>

fun chunk_ranges :: "int \<Rightarrow> nat list \<Rightarrow> (int \<times> int) list" where
  "chunk_ranges start [] = []"
| "chunk_ranges start (n # ns) = (start, start + int n - 1) # chunk_ranges (start + int n) ns"

subsection \<open>Content with line feeds only\<close>

text \<open>When the content is well-formed UTF-8 and has no carriage return, the lines read in
  text mode are the bytes of the blob, and a blob of \<^verbatim>\<open>k * lines_per_chunk\<close> lines is cut
  into exactly k contiguous ranges, one for each group of \<^verbatim>\<open>lines_per_chunk\<close> lines, from
  byte 0 to the last byte.\<close>

lemma concat_text_lines_from:
  "CR \<notin> set content \<Longrightarrow> concat (text_lines_from cur content) = cur @ content"
  by (induction content arbitrary: cur) auto

lemma stream_blob_group:
  assumes "0 < lpc"
  shows "g \<noteq> [] \<Longrightarrow> length g \<le> lpc \<Longrightarrow> lpc dvd (ln + length g - 1) \<Longrightarrow> 0 < ln \<Longrightarrow>
   stream_blob lpc blob_size read_error ln start buf (g @ rest) =
     ((start, start + int (length buf + length (concat g)) - 1) #
        fst (stream_blob lpc blob_size read_error (ln + length g)
               (start + int (length buf + length (concat g))) [] rest),
      snd (stream_blob lpc blob_size read_error (ln + length g)
             (start + int (length buf + length (concat g))) [] rest))"
proof (induction g arbitrary: ln buf)
  case Nil
  then show ?case by simp
next
  case (Cons line g)
  show ?case
  proof (cases "g = []")
    case True
    with Cons.prems have "lpc dvd ln" by simp
    then have "ln mod lpc = 0" by (simp add: mod_eq_0_iff_dvd)
    with True assms show ?thesis by (simp add: Let_def add.commute split: prod.splits)
  next
    case False
    have "ln mod lpc \<noteq> 0"
    proof
      assume "ln mod lpc = 0"
      then have d1: "lpc dvd ln" by (simp add: mod_eq_0_iff_dvd)
      from Cons.prems have d2: "lpc dvd (ln + length g)" by simp
      from d1 d2 have "lpc dvd length g" using dvd_add_right_iff by blast
      moreover have "0 < length g" using False by simp
      moreover have "length g < lpc" using Cons.prems by simp
      ultimately show False using nat_dvd_not_less by blast
    qed
    moreover have "stream_blob lpc blob_size read_error (ln + 1) start (buf @ line) (g @ rest) =
     ((start, start + int (length (buf @ line) + length (concat g)) - 1) #
        fst (stream_blob lpc blob_size read_error (ln + 1 + length g)
               (start + int (length (buf @ line) + length (concat g))) [] rest),
      snd (stream_blob lpc blob_size read_error (ln + 1 + length g)
             (start + int (length (buf @ line) + length (concat g))) [] rest))"
      using Cons.prems False by (intro Cons.IH) simp_all
    ultimately show ?thesis using assms by (simp add: Let_def add.assoc)
  qed
qed

lemma stream_blob_groups:
  assumes "0 < lpc"
  shows "list_all (\<lambda>g. length g = lpc) groups \<Longrightarrow> lpc dvd (ln - 1) \<Longrightarrow> 0 < ln \<Longrightarrow>
   stream_blob lpc blob_size None ln start [] (concat groups) =
     (chunk_ranges start (map (\<lambda>g. length (concat g)) groups) @
        (if start + int (length (concat (concat groups))) < blob_size
         then [(start + int (length (concat (concat groups))), blob_size)] else []),
      None)"
proof (induction groups arbitrary: ln start)
  case Nil
  then show ?case by simp
next
  case (Cons g groups)
  from Cons.prems assms have g: "g \<noteq> []" "length g \<le> lpc" "length g = lpc" by auto
  have d: "lpc dvd (ln + length g - 1)"
  proof -
    have "ln + length g - 1 = (ln - 1) + lpc" using Cons.prems(3) g(3) by simp
    then show ?thesis using Cons.prems(2) by simp
  qed
  have ih: "stream_blob lpc blob_size None (ln + length g) (start + int (length (concat g))) []
              (concat groups) =
     (chunk_ranges (start + int (length (concat g))) (map (\<lambda>g. length (concat g)) groups) @
        (if start + int (length (concat g)) + int (length (concat (concat groups))) < blob_size
         then [(start + int (length (concat g)) + int (length (concat (concat groups))), blob_size)]
         else []),
      None)"
  proof (rule Cons.IH)
    show "list_all (\<lambda>g. length g = lpc) groups" using Cons.prems by simp
    show "lpc dvd (ln + length g - 1)" by (rule d)
    show "0 < ln + length g" using Cons.prems by simp
  qed
  from stream_blob_group[OF assms g(1,2) d Cons.prems(3), of blob_size None start "[]" "concat groups"]
  show ?case using ih by (simp add: algebra_simps)
qed

lemma groups_of_lines:
  "0 < lpc \<Longrightarrow> length xs = k * lpc \<Longrightarrow>
   \<exists>groups. xs = concat groups \<and> length groups = k \<and> list_all (\<lambda>g. length g = lpc) groups"
proof (induction k arbitrary: xs)
  case 0
  then show ?case by (intro exI[of _ "[]"]) simp
next
  case (Suc k)
  then have "length (drop lpc xs) = k * lpc" by simp
  from Suc.IH[OF Suc.prems(1) this] obtain groups where
    g: "drop lpc xs = concat groups" "length groups = k" "list_all (\<lambda>g. length g = lpc) groups"
    by blast
  have "xs = concat (take lpc xs # groups)" using g(1) by (simp flip: g(1))
  moreover have "length (take lpc xs) = lpc" using Suc.prems by simp
  ultimately show ?case using g(2,3)
    by (intro exI[of _ "take lpc xs # groups"]) simp
qed

lemma chunk_ranges_length: "length (chunk_ranges start ns) = length ns"
  by (induction ns arbitrary: start) simp_all

lemma chunk_ranges_first: "ns \<noteq> [] \<Longrightarrow> fst (hd (chunk_ranges start ns)) = start"
  by (cases ns) simp_all

lemma chunk_ranges_last:
  "ns \<noteq> [] \<Longrightarrow> snd (last (chunk_ranges start ns)) = start + int (sum_list ns) - 1"
proof (induction ns arbitrary: start)
  case Nil
  then show ?case by simp
next
  case (Cons n ns)
  show ?case
  proof (cases "ns = []")
    case True
    then show ?thesis by simp
  next
    case False
    then have "chunk_ranges (start + int n) ns \<noteq> []" by (cases ns) simp_all
    with Cons.IH[OF False, of "start + int n"] show ?thesis by simp
  qed
qed

lemma chunk_ranges_contiguous:
  "Suc i < length ns \<Longrightarrow>
   fst (chunk_ranges start ns ! Suc i) = snd (chunk_ranges start ns ! i) + 1"
proof (induction ns arbitrary: start i)
  case Nil
  then show ?case by simp
next
  case (Cons n ns)
  show ?case
  proof (cases i)
    case 0
    with Cons.prems obtain m ms where "ns = m # ms" by (cases ns) auto
    with 0 show ?thesis by simp
  next
    case (Suc j)
    with Cons.prems have "Suc j < length ns" by simp
    from Cons.IH[OF this, of "start + int n"] Suc show ?thesis by simp
  qed
qed

lemma sum_list_group_lengths:
  "sum_list (map (\<lambda>g. length (concat g)) groups) = length (concat (concat groups))"
  by (induction groups) simp_all

lemma calc_line_chunks_lf:
  assumes blob: "get_blob external_id = Some content"
    and utf8: "utf8_valid (map of_char content)"
    and lf: "CR \<notin> set content"
    and lpc: "0 < lines_per_chunk"
    and lines: "length (text_lines content) = k * lines_per_chunk"
  shows "\<exists>chunks groups.
           calc_line_chunks get_blob external_id lines_per_chunk = Inr chunks \<and>
           text_lines content = concat groups \<and>
           list_all (\<lambda>g. length g = lines_per_chunk) groups \<and>
           chunks = chunk_ranges 0 (map (\<lambda>g. length (concat g)) groups) \<and>
           length chunks = k \<and>
           (if 0 < k then fst (hd chunks) = 0 \<and> snd (last chunks) = int (length content) - 1
            else True) \<and>
           (\<forall>i. Suc i < k \<longrightarrow> fst (chunks ! Suc i) = snd (chunks ! i) + 1)"
proof -
  from groups_of_lines[OF lpc lines] obtain groups where
    g: "text_lines content = concat groups" "length groups = k"
       "list_all (\<lambda>g. length g = lines_per_chunk) groups" by blast
  define ns where "ns = map (\<lambda>g. length (concat g)) groups"
  have total: "length (concat (concat groups)) = length content"
    using concat_text_lines_from[OF lf, of "[]"] g(1) by (simp add: text_lines_def)
  have "stream_blob lines_per_chunk (int (length content)) None 1 0 [] (concat groups) =
        (chunk_ranges 0 ns, None)"
    using stream_blob_groups[OF lpc g(3), of 1 "int (length content)" 0] total
    by (simp add: ns_def)
  then have res: "calc_line_chunks get_blob external_id lines_per_chunk = Inr (chunk_ranges 0 ns)"
    using blob utf8 g(1)
    by (simp add: calc_line_chunks_def line_chunks_yielded_def text_mode_lines_def)
  have len: "length (chunk_ranges 0 ns) = k" by (simp add: chunk_ranges_length ns_def g(2))
  have ends: "fst (hd (chunk_ranges 0 ns)) = 0 \<and>
              snd (last (chunk_ranges 0 ns)) = int (length content) - 1" if "0 < k"
  proof -
    have "ns \<noteq> []" using that g(2) by (auto simp: ns_def)
    from chunk_ranges_first[OF this, of 0] chunk_ranges_last[OF this, of 0]
    show ?thesis using sum_list_group_lengths[of groups] total by (simp add: ns_def)
  qed
  have cont: "fst (chunk_ranges 0 ns ! Suc i) = snd (chunk_ranges 0 ns ! i) + 1" if "Suc i < k" for i
    using that chunk_ranges_contiguous[of i ns 0] by (simp add: ns_def g(2))
  show ?thesis
    using res g(1,3) len ends cont unfolding ns_def
    by (intro exI[of _ "chunk_ranges 0 (map (\<lambda>g. length (concat g)) groups)"] exI[of _ groups]) auto
qed

text \<open>Content that is not well-formed UTF-8: the reading raises, and the ranges of the
  lines handed over before are yielded first.\<close>

lemma calc_line_chunks_not_utf8:
  "get_blob external_id = Some content \<Longrightarrow> \<not> utf8_valid (map of_char content) \<Longrightarrow>
   \<exists>e. calc_line_chunks get_blob external_id lines_per_chunk = Inl e"
proof -
  have "snd (stream_blob lpc blob_size (Some e) ln start buf lines) \<noteq> None"
    for lpc blob_size e ln start buf lines
  proof (induction lines arbitrary: ln start buf)
    case Nil
    show ?case by simp
  next
    case (Cons line lines)
    show ?case
      using Cons[of "ln + 1" "start + int (length (buf @ line))" "[]"]
            Cons[of "ln + 1" start "buf @ line"]
      by (cases "stream_blob lpc blob_size (Some e) (ln + 1) (start + int (length (buf @ line))) [] lines")
         (auto simp: Let_def)
  qed
  then have "snd (stream_blob lines_per_chunk (int (length content)) (Some UnicodeDecodeError) 1 0 []
                    (complete_lines_from [] (take (reads_decoded content * read_size) content))) \<noteq> None"
    by blast
  then show "get_blob external_id = Some content \<Longrightarrow> \<not> utf8_valid (map of_char content) \<Longrightarrow>
   \<exists>e. calc_line_chunks get_blob external_id lines_per_chunk = Inl e"
    by (cases "stream_blob lines_per_chunk (int (length content)) (Some UnicodeDecodeError) 1 0 []
                    (complete_lines_from [] (take (reads_decoded content * read_size) content))")
       (auto simp: calc_line_chunks_def line_chunks_yielded_def text_mode_lines_def)
qed

subsection \<open>Content with carriage returns\<close>


text \<open>
  C7. The file has six bytes and exactly two lines; with one line per chunk (k = 2) the
  generator yields three ranges, not two, and the ranges (0, 1) and (2, 3) end inside the
  line terminators, not on the line boundaries at bytes 3 and 6.
\<close>

theorem calc_line_chunks_crlf:
  "length crlf_content = 6 \<and>
   text_lines crlf_content = [[CHR ''a'', LF], [CHR ''b'', LF]] \<and>
   calc_line_chunks (\<lambda>external_id. Some crlf_content) ''a.csv'' 1 = Inr [(0, 1), (2, 3), (4, 6)]"
  by (simp add: crlf_content_def text_lines_def calc_line_chunks_def line_chunks_yielded_def
      text_mode_lines_def continuation_def LF_def CR_def)

section \<open>Extractor: rows of a CSV artifact\<close>

text \<open>
  \<^verbatim>\<open>CSVRowExtractor\<close> of \<^verbatim>\<open>cif/extractor.py\<close>, reading through the connector. Content is
  a list of bytes, decoded as UTF-8.
  \<^verbatim>\<open>get_artifact_chunk\<close> returns the bytes from \<^verbatim>\<open>start\<close> to \<^verbatim>\<open>end\<close>, both included.
  \<^verbatim>\<open>uuid4().hex\<close> is a supply of identifiers with the number of draws passed along, as
  for intake; a function that can raise returns that number with the exception too.
\<close>

record fragment =
  fr_source_id :: string
  fr_artifact_id :: string
  fr_fragment_id :: string
  fr_aggregation_level :: aggregation_level
  fr_seq_no :: int
  fr_text_content :: string
  fr_json_content :: "(string \<times> string) list option"

definition get_artifact :: "(string \<Rightarrow> string option) \<Rightarrow> string \<Rightarrow> py_error + string" where
  "get_artifact get_blob external_id =
     (case get_blob external_id of None \<Rightarrow> Inl ValueError | Some content \<Rightarrow> Inr content)"

definition get_artifact_chunk ::
  "(string \<Rightarrow> string option) \<Rightarrow> string \<Rightarrow> nat \<Rightarrow> nat \<Rightarrow> py_error + string" where
  "get_artifact_chunk get_blob external_id start_bytes end_bytes =
     (case get_blob external_id of
        None \<Rightarrow> Inl ValueError
      | Some content \<Rightarrow> Inr (take (end_bytes + 1 - start_bytes) (drop start_bytes content)))"

text \<open>
  \<^verbatim>\<open>StringIO(text)\<close> read line by line: without newline translation, a line ends at a
  line feed, which it keeps.
\<close>

fun stringio_lines_from :: "string \<Rightarrow> string \<Rightarrow> string list" where
  "stringio_lines_from cur [] = (if cur = [] then [] else [cur])"
| "stringio_lines_from cur (c # cs) =
     (if c = LF then (cur @ [LF]) # stringio_lines_from [] cs
      else stringio_lines_from (cur @ [c]) cs)"

definition stringio_lines :: "string \<Rightarrow> string list" where
  "stringio_lines text = stringio_lines_from [] text"

text \<open>
  \<^verbatim>\<open>csv.reader\<close> of the standard library with its default dialect: the delimiter is the
  comma, the quote character is the double quote, a doubled quote inside a quoted field
  stands for one quote, there is no escape character, and the parser is not strict. The
  parser is the state machine of the library, fed the characters of each line and then
  an end-of-line mark (\<open>None\<close> below). A field may hold at most \<^verbatim>\<open>field_size_limit\<close>
  characters, 131072 unless changed; a longer one and a character after the end of a
  line raise \<^verbatim>\<open>csv.Error\<close>. The library of Python 3.11 and later is followed, which
  takes the NUL character as any other character.
\<close>

datatype parser_state =
  START_RECORD | START_FIELD | IN_FIELD | IN_QUOTED_FIELD | QUOTE_IN_QUOTED_FIELD | EAT_CRNL

record csv_parser =
  ps_state :: parser_state
  ps_fields :: "string list"
  ps_field :: string

definition field_size_limit :: nat where "field_size_limit = 131072"

definition parse_reset :: csv_parser where
  "parse_reset = \<lparr>ps_state = START_RECORD, ps_fields = [], ps_field = []\<rparr>"

text \<open>A character is added to the field unless the field is full. The bytes of one
  character are added one by one, and the test is made at the first of them.\<close>

definition parse_add_char :: "csv_parser \<Rightarrow> char \<Rightarrow> py_error + csv_parser" where
  "parse_add_char p c =
     (if \<not> continuation (of_char c) \<and> field_size_limit \<le> py_len (ps_field p) then Inl CsvError
      else Inr (p\<lparr>ps_field := ps_field p @ [c]\<rparr>))"

definition parse_save_field :: "csv_parser \<Rightarrow> csv_parser" where
  "parse_save_field p = p\<lparr>ps_fields := ps_fields p @ [ps_field p], ps_field := []\<rparr>"

definition start_field :: "csv_parser \<Rightarrow> char option \<Rightarrow> py_error + csv_parser" where
  "start_field p c =
     (case c of
        None \<Rightarrow> Inr ((parse_save_field p)\<lparr>ps_state := START_RECORD\<rparr>)
      | Some ch \<Rightarrow>
          if ch = LF \<or> ch = CR then Inr ((parse_save_field p)\<lparr>ps_state := EAT_CRNL\<rparr>)
          else if ch = CHR 0x22 then Inr (p\<lparr>ps_state := IN_QUOTED_FIELD\<rparr>)
          else if ch = CHR '','' then Inr (parse_save_field p)
          else (case parse_add_char p ch of
                  Inl e \<Rightarrow> Inl e
                | Inr p' \<Rightarrow> Inr (p'\<lparr>ps_state := IN_FIELD\<rparr>)))"

definition parse_process_char :: "csv_parser \<Rightarrow> char option \<Rightarrow> py_error + csv_parser" where
  "parse_process_char p c =
     (case ps_state p of
        START_RECORD \<Rightarrow>
          (case c of
             None \<Rightarrow> Inr p
           | Some ch \<Rightarrow>
               if ch = LF \<or> ch = CR then Inr (p\<lparr>ps_state := EAT_CRNL\<rparr>)
               else start_field (p\<lparr>ps_state := START_FIELD\<rparr>) c)
      | START_FIELD \<Rightarrow> start_field p c
      | IN_FIELD \<Rightarrow>
          (case c of
             None \<Rightarrow> Inr ((parse_save_field p)\<lparr>ps_state := START_RECORD\<rparr>)
           | Some ch \<Rightarrow>
               if ch = LF \<or> ch = CR then Inr ((parse_save_field p)\<lparr>ps_state := EAT_CRNL\<rparr>)
               else if ch = CHR '','' then Inr ((parse_save_field p)\<lparr>ps_state := START_FIELD\<rparr>)
               else parse_add_char p ch)
      | IN_QUOTED_FIELD \<Rightarrow>
          (case c of
             None \<Rightarrow> Inr p
           | Some ch \<Rightarrow>
               if ch = CHR 0x22 then Inr (p\<lparr>ps_state := QUOTE_IN_QUOTED_FIELD\<rparr>)
               else parse_add_char p ch)
      | QUOTE_IN_QUOTED_FIELD \<Rightarrow>
          (case c of
             None \<Rightarrow> Inr ((parse_save_field p)\<lparr>ps_state := START_RECORD\<rparr>)
           | Some ch \<Rightarrow>
               if ch = CHR 0x22 then
                 (case parse_add_char p ch of
                    Inl e \<Rightarrow> Inl e
                  | Inr p' \<Rightarrow> Inr (p'\<lparr>ps_state := IN_QUOTED_FIELD\<rparr>))
               else if ch = CHR '','' then Inr ((parse_save_field p)\<lparr>ps_state := START_FIELD\<rparr>)
               else if ch = LF \<or> ch = CR then Inr ((parse_save_field p)\<lparr>ps_state := EAT_CRNL\<rparr>)
               else (case parse_add_char p ch of
                       Inl e \<Rightarrow> Inl e
                     | Inr p' \<Rightarrow> Inr (p'\<lparr>ps_state := IN_FIELD\<rparr>)))
      | EAT_CRNL \<Rightarrow>
          (case c of
             None \<Rightarrow> Inr (p\<lparr>ps_state := START_RECORD\<rparr>)
           | Some ch \<Rightarrow> if ch = LF \<or> ch = CR then Inr p else Inl CsvError))"

text \<open>One line: its characters, then the end-of-line mark.\<close>

fun parse_chars :: "csv_parser \<Rightarrow> string \<Rightarrow> py_error + csv_parser" where
  "parse_chars p [] = parse_process_char p None"
| "parse_chars p (c # cs) =
     (case parse_process_char p (Some c) of
        Inl e \<Rightarrow> Inl e
      | Inr p' \<Rightarrow> parse_chars p' cs)"

text \<open>
  The records of the reader, one for each call of \<^verbatim>\<open>next\<close>, and the exception that ends
  the reading, if any. A call starts from the reset parser and takes lines until the
  parser is back at the start of a record; a record can span lines when a quoted field
  holds a line feed. When the lines end inside a record, the record is returned as it
  stands.
\<close>

fun csv_reader_from :: "csv_parser \<Rightarrow> string list \<Rightarrow> string list list \<times> py_error option" where
  "csv_reader_from p [] =
     (if ps_field p \<noteq> [] \<or> ps_state p = IN_QUOTED_FIELD
      then ([ps_fields (parse_save_field p)], None) else ([], None))"
| "csv_reader_from p (line # lines) =
     (case parse_chars p line of
        Inl e \<Rightarrow> ([], Some e)
      | Inr p' \<Rightarrow>
          if ps_state p' = START_RECORD then
            (let (rows, e) = csv_reader_from parse_reset lines in (ps_fields p' # rows, e))
          else csv_reader_from p' lines)"

definition csv_reader :: "string \<Rightarrow> string list list \<times> py_error option" where
  "csv_reader text = csv_reader_from parse_reset (stringio_lines text)"

text \<open>\<^verbatim>\<open>parse_content\<close> decodes the whole content or the range asked for;
  \<^verbatim>\<open>calc_fieldnames\<close> decodes the first 4097 bytes and takes the first record of the
  reader, \<^verbatim>\<open>next\<close> raising \<^verbatim>\<open>StopIteration\<close> when there is none.\<close>

definition parse_content ::
  "(string \<Rightarrow> string option) \<Rightarrow> string \<Rightarrow> nat option \<Rightarrow> nat option \<Rightarrow> py_error + string" where
  "parse_content get_blob external_id start_byte end_byte =
     (case (case (start_byte, end_byte) of
              (Some s, Some e) \<Rightarrow> get_artifact_chunk get_blob external_id s e
            | _ \<Rightarrow> get_artifact get_blob external_id) of
        Inl e \<Rightarrow> Inl e
      | Inr content \<Rightarrow> decode_utf8 content)"

definition calc_fieldnames :: "(string \<Rightarrow> string option) \<Rightarrow> artifact_row \<Rightarrow> py_error + string list" where
  "calc_fieldnames get_blob artifact =
     (case get_artifact_chunk get_blob (ar_external_id artifact) 0 4096 of
        Inl e \<Rightarrow> Inl e
      | Inr line \<Rightarrow>
          (case decode_utf8 line of
             Inl e \<Rightarrow> Inl e
           | Inr r \<Rightarrow>
               (case csv_reader r of
                  (row # _, _) \<Rightarrow> Inr row
                | ([], Some e) \<Rightarrow> Inl e
                | ([], None) \<Rightarrow> Inl StopIteration)))"

text \<open>\<^verbatim>\<open>Extractor.new_fragment\<close>; the text filter, when configured, is a function on the
  text.\<close>

definition new_fragment ::
  "(string \<Rightarrow> string) option \<Rightarrow> artifact_row \<Rightarrow> string \<Rightarrow> int \<Rightarrow> aggregation_level \<Rightarrow> string
     \<Rightarrow> (string \<times> string) list option \<Rightarrow> fragment" where
  "new_fragment text_content_filter artifact fragment_id seq_no aggregation_level raw_text_content
     json_content =
     \<lparr>fr_source_id = ar_source_id artifact, fr_artifact_id = ar_artifact_id artifact,
      fr_fragment_id = fragment_id, fr_aggregation_level = aggregation_level, fr_seq_no = seq_no,
      fr_text_content = (case text_content_filter of
                           Some filter_text_content \<Rightarrow> filter_text_content raw_text_content
                         | None \<Rightarrow> raw_text_content),
      fr_json_content = json_content\<rparr>"

text \<open>
  \<^verbatim>\<open>DictReader(f, fieldnames=fieldnames)\<close>: with field names supplied, no line is taken as
  header; empty records are skipped; a record becomes \<^verbatim>\<open>dict(zip(fieldnames, row))\<close>. An
  exception of the reader ends the loop after the records read before it.
  A record longer or shorter than the field names gets a list or \<^verbatim>\<open>None\<close> among its
  values, on which \<^verbatim>\<open>" ".join(row.values())\<close> raises \<^verbatim>\<open>TypeError\<close>. Every fragment gets
  \<^verbatim>\<open>uuid4().hex\<close> as its fragment id and 0 as its sequence number; the \<^verbatim>\<open>fragment_id\<close>
  argument is not used.
\<close>

definition dict_of_row :: "string list \<Rightarrow> string list \<Rightarrow> (string \<times> string) list" where
  "dict_of_row fieldnames row = fold (\<lambda>(k, v) d. AList.update k v d) (zip fieldnames row) []"

fun csv_row_fragments ::
  "(nat \<Rightarrow> string) \<Rightarrow> nat \<Rightarrow> (string \<Rightarrow> string) option \<Rightarrow> artifact_row \<Rightarrow> string list
     \<Rightarrow> string list list \<Rightarrow> (py_error + fragment list) \<times> nat" where
  "csv_row_fragments uuid4_hex n text_content_filter artifact fieldnames [] = (Inr [], n)"
| "csv_row_fragments uuid4_hex n text_content_filter artifact fieldnames (row # rows) =
     (if length row \<noteq> length fieldnames then (Inl TypeError, n + 1)
      else
        (let d = dict_of_row fieldnames row;
             fragment = new_fragment text_content_filter artifact (uuid4_hex n) 0 ROW
                          (join '' '' (map snd d)) (Some d);
             (r, n') = csv_row_fragments uuid4_hex (n + 1) text_content_filter artifact fieldnames rows
         in (case r of Inl e \<Rightarrow> Inl e | Inr fragments \<Rightarrow> Inr (fragment # fragments), n')))"

definition csv_calc_fragments ::
  "(string \<Rightarrow> string option) \<Rightarrow> (nat \<Rightarrow> string) \<Rightarrow> nat \<Rightarrow> (string \<Rightarrow> string) option
     \<Rightarrow> artifact_row \<Rightarrow> string option \<Rightarrow> nat option \<Rightarrow> nat option
     \<Rightarrow> (py_error + fragment list) \<times> nat" where
  "csv_calc_fragments get_blob uuid4_hex n text_content_filter artifact fragment_id start_byte end_byte =
     (case calc_fieldnames get_blob artifact of
        Inl e \<Rightarrow> (Inl e, n)
      | Inr fieldnames \<Rightarrow>
          (case parse_content get_blob (ar_external_id artifact) start_byte end_byte of
             Inl e \<Rightarrow> (Inl e, n)
           | Inr f \<Rightarrow>
               (let (rows, read_error) = csv_reader f;
                    (r, n') = csv_row_fragments uuid4_hex n text_content_filter artifact fieldnames
                                (filter (\<lambda>row. row \<noteq> []) rows)
                in (case r of
                      Inl e \<Rightarrow> Inl e
                    | Inr fragments \<Rightarrow>
                        (case read_error of Some e \<Rightarrow> Inl e | None \<Rightarrow> Inr fragments),
                    n'))))"

text \<open>The CSV text of the repository's tests.\<close>

definition csv_artifact :: artifact_row where
  "csv_artifact =
     \<lparr>ar_artifact_id = ''a1'', ar_source_id = ''src'', ar_external_id = ''t.csv'',
      ar_version = ''v1'', ar_content_type = ''text/csv'', ar_content_length = 21,
      ar_created_on = 100\<rparr>"

definition csv_text :: string where
  "csv_text = ''foo,bar,baz'' @ [LF] @ ''0,1,quux'' @ [LF]"


subsection \<open>The header line is a data row\<close>

definition csv_fragment ::
  "(nat \<Rightarrow> string) \<Rightarrow> (string \<Rightarrow> string) option \<Rightarrow> artifact_row \<Rightarrow> string list
     \<Rightarrow> nat \<Rightarrow> string list \<Rightarrow> fragment" where
  "csv_fragment uuid4_hex text_content_filter artifact fieldnames i row =
     new_fragment text_content_filter artifact (uuid4_hex i) 0 ROW
       (join '' '' (map snd (dict_of_row fieldnames row))) (Some (dict_of_row fieldnames row))"

text \<open>A file written from rows of cells: cells without comma, line feed, carriage return
  and double quote, of at most \<^verbatim>\<open>field_size_limit\<close> characters, joined by commas, one
  line per row; a row has a cell, and is not the single empty cell, which makes an empty
  line.\<close>

definition plain_char :: "char \<Rightarrow> bool" where
  "plain_char c = (c \<noteq> CHR '','' \<and> c \<noteq> LF \<and> c \<noteq> CR \<and> c \<noteq> CHR 0x22)"

definition plain_cell :: "string \<Rightarrow> bool" where
  "plain_cell cell = (list_all plain_char cell \<and> py_len cell \<le> field_size_limit)"

definition plain_row :: "string list \<Rightarrow> bool" where
  "plain_row row = (row \<noteq> [] \<and> row \<noteq> [[]] \<and> list_all plain_cell row)"

definition csv_line :: "string list \<Rightarrow> string" where
  "csv_line row = join '','' row @ [LF]"

definition csv_file :: "string list list \<Rightarrow> string" where
  "csv_file rows = concat (map csv_line rows)"

lemma csv_row_fragments_explicit:
  "list_all (\<lambda>row. length row = length fieldnames) rows \<Longrightarrow>
   csv_row_fragments uuid4_hex n text_content_filter artifact fieldnames rows =
     (Inr (map (\<lambda>(i, row). csv_fragment uuid4_hex text_content_filter artifact fieldnames i row)
             (List.enumerate n rows)),
      n + length rows)"
proof (induction rows arbitrary: n)
  case Nil
  show ?case by simp
next
  case (Cons row rows)
  then have "length row = length fieldnames" and "list_all (\<lambda>row. length row = length fieldnames) rows"
    by simp_all
  with Cons.IH[of "n + 1"] show ?case by (simp add: csv_fragment_def Let_def)
qed

text \<open>The parser on a plain cell and on a line of plain cells.\<close>

lemma py_len_append: "py_len (a @ b) = py_len a + py_len b"
  by (simp add: py_len_def)

lemma py_len_le_length: "py_len a \<le> length a"
  by (simp add: py_len_def)

lemma parse_add_char_ok:
  "py_len (ps_field p @ [c]) \<le> field_size_limit \<Longrightarrow>
   parse_add_char p c = Inr (p\<lparr>ps_field := ps_field p @ [c]\<rparr>)"
  by (auto simp: parse_add_char_def py_len_def)

lemma parse_chars_in_field:
  "ps_state p = IN_FIELD \<Longrightarrow> list_all plain_char x \<Longrightarrow>
   py_len (ps_field p @ x) \<le> field_size_limit \<Longrightarrow>
   parse_chars p (x @ rest) = parse_chars (p\<lparr>ps_field := ps_field p @ x\<rparr>) rest"
proof (induction x arbitrary: p)
  case Nil
  then show ?case by simp
next
  case (Cons c x)
  have c: "c \<noteq> CHR '',''" "c \<noteq> LF" "c \<noteq> CR" using Cons.prems(2) by (simp_all add: plain_char_def)
  have "py_len (ps_field p @ [c]) \<le> py_len (ps_field p @ c # x)"
    by (simp add: py_len_def)
  then have len: "py_len (ps_field p @ [c]) \<le> field_size_limit" using Cons.prems(3) by simp
  have step: "parse_process_char p (Some c) = Inr (p\<lparr>ps_field := ps_field p @ [c]\<rparr>)"
    using Cons.prems(1) c parse_add_char_ok[OF len] by (simp add: parse_process_char_def)
  have "parse_chars (p\<lparr>ps_field := ps_field p @ [c]\<rparr>) (x @ rest) =
        parse_chars ((p\<lparr>ps_field := ps_field p @ [c]\<rparr>)\<lparr>ps_field := ps_field (p\<lparr>ps_field := ps_field p @ [c]\<rparr>) @ x\<rparr>) rest"
    using Cons.prems by (intro Cons.IH) simp_all
  then show ?case using step by simp
qed

lemma parse_chars_cell:
  assumes "ps_state p = START_FIELD" "ps_field p = []" "plain_cell x" "x \<noteq> []"
  shows "parse_chars p (x @ rest) = parse_chars (p\<lparr>ps_state := IN_FIELD, ps_field := x\<rparr>) rest"
proof -
  from assms(4) obtain c cs where x: "x = c # cs" by (cases x) auto
  have c: "c \<noteq> CHR '',''" "c \<noteq> LF" "c \<noteq> CR" "c \<noteq> CHR 0x22"
    using assms(3) x by (simp_all add: plain_cell_def plain_char_def)
  have "py_len [c] \<le> py_len (c # cs)" by (simp add: py_len_def)
  then have len: "py_len (ps_field p @ [c]) \<le> field_size_limit"
    using assms(2,3) x by (simp add: plain_cell_def)
  have step: "parse_process_char p (Some c) = Inr (p\<lparr>ps_state := IN_FIELD, ps_field := [c]\<rparr>)"
    using assms(1,2) c parse_add_char_ok[OF len] by (simp add: parse_process_char_def start_field_def)
  have "parse_chars (p\<lparr>ps_state := IN_FIELD, ps_field := [c]\<rparr>) (cs @ rest) =
        parse_chars ((p\<lparr>ps_state := IN_FIELD, ps_field := [c]\<rparr>)
                       \<lparr>ps_field := ps_field (p\<lparr>ps_state := IN_FIELD, ps_field := [c]\<rparr>) @ cs\<rparr>) rest"
    using assms(3) x by (intro parse_chars_in_field) (simp_all add: plain_cell_def)
  then show ?thesis using step x by simp
qed

lemma parse_chars_row:
  "row \<noteq> [] \<Longrightarrow> list_all plain_cell row \<Longrightarrow> ps_state p = START_FIELD \<Longrightarrow> ps_field p = [] \<Longrightarrow>
   line_end = [] \<or> line_end = [LF] \<Longrightarrow>
   parse_chars p (join '','' row @ line_end) =
     Inr \<lparr>ps_state = START_RECORD, ps_fields = ps_fields p @ row, ps_field = []\<rparr>"
proof (induction "'',''" row arbitrary: p rule: join.induct)
  case 1
  then show ?case by simp
next
  case (2 x)
  show ?case
  proof (cases "x = []")
    case True
    with 2 show ?thesis
      by (auto simp: parse_process_char_def start_field_def parse_save_field_def LF_def CR_def)
  next
    case False
    from 2 have cell: "plain_cell x" by simp
    have "parse_chars p (x @ line_end) = parse_chars (p\<lparr>ps_state := IN_FIELD, ps_field := x\<rparr>) line_end"
      using parse_chars_cell[OF 2(3,4) cell False] .
    then show ?thesis using 2(5)
      by (auto simp: parse_process_char_def parse_save_field_def LF_def CR_def)
  qed
next
  case (3 x y ys)
  from 3 have cell: "plain_cell x" and more: "list_all plain_cell (y # ys)" by simp_all
  let ?q = "\<lparr>ps_state = START_FIELD, ps_fields = ps_fields p @ [x], ps_field = []\<rparr>"
  have first: "parse_chars p (join '','' (x # y # ys) @ line_end) =
               parse_chars ?q (join '','' (y # ys) @ line_end)"
  proof (cases "x = []")
    case True
    have "parse_process_char p (Some (CHR '','')) = Inr ?q"
      using True 3(4,5)
      by (cases p) (simp add: parse_process_char_def start_field_def parse_save_field_def LF_def CR_def)
    then show ?thesis using True by simp
  next
    case False
    have "parse_chars p (x @ CHR '','' # join '','' (y # ys) @ line_end) =
          parse_chars (p\<lparr>ps_state := IN_FIELD, ps_field := x\<rparr>) (CHR '','' # join '','' (y # ys) @ line_end)"
      using parse_chars_cell[OF 3(4,5) cell False] .
    moreover have "parse_process_char (p\<lparr>ps_state := IN_FIELD, ps_field := x\<rparr>) (Some (CHR '','')) = Inr ?q"
      by (cases p) (simp add: parse_process_char_def parse_save_field_def LF_def CR_def)
    ultimately show ?thesis by simp
  qed
  have "parse_chars ?q (join '','' (y # ys) @ line_end) =
        Inr \<lparr>ps_state = START_RECORD, ps_fields = ps_fields ?q @ (y # ys), ps_field = []\<rparr>"
    using more 3(6) by (intro 3(1)) simp_all
  with first show ?case by simp
qed

lemma join_set: "set (join sep row) \<subseteq> set sep \<union> \<Union> (set ` set row)"
  by (induction sep row rule: join.induct) auto

lemma plain_row_no_lf: "plain_row row \<Longrightarrow> LF \<notin> set (join '','' row)"
proof
  assume p: "plain_row row" and "LF \<in> set (join '','' row)"
  with join_set[of "'',''" row] have "LF \<in> set '','' \<union> \<Union> (set ` set row)" by blast
  then have "\<exists>cell \<in> set row. LF \<in> set cell" by (auto simp: LF_def)
  with p show False by (auto simp: plain_row_def plain_cell_def plain_char_def list_all_iff)
qed

lemma plain_row_no_cr: "plain_row row \<Longrightarrow> CR \<notin> set (join '','' row)"
proof
  assume p: "plain_row row" and "CR \<in> set (join '','' row)"
  with join_set[of "'',''" row] have "CR \<in> set '','' \<union> \<Union> (set ` set row)" by blast
  then have "\<exists>cell \<in> set row. CR \<in> set cell" by (auto simp: CR_def)
  with p show False by (auto simp: plain_row_def plain_cell_def plain_char_def list_all_iff)
qed

lemma plain_row_join_nonempty: "plain_row row \<Longrightarrow> join '','' row \<noteq> []"
proof -
  assume p: "plain_row row"
  then obtain x rest where row: "row = x # rest" by (cases row) (auto simp: plain_row_def)
  show ?thesis
  proof (cases rest)
    case Nil
    with p row show ?thesis by (auto simp: plain_row_def)
  next
    case (Cons y ys)
    with row show ?thesis by simp
  qed
qed

text \<open>At the start of a record, a character that does not end a line is taken as at the
  start of a field.\<close>

lemma parse_chars_record:
  assumes p: "plain_row row" and e: "line_end = [] \<or> line_end = [LF]"
  shows "parse_chars parse_reset (join '','' row @ line_end) =
           Inr \<lparr>ps_state = START_RECORD, ps_fields = row, ps_field = []\<rparr>"
proof -
  let ?q = "\<lparr>ps_state = START_FIELD, ps_fields = [], ps_field = []\<rparr>"
  from plain_row_join_nonempty[OF p] obtain c cs where j: "join '','' row = c # cs"
    by (cases "join '','' row") auto
  have "c \<in> set (join '','' row)" using j by simp
  with plain_row_no_lf[OF p] plain_row_no_cr[OF p] have c: "c \<noteq> LF" "c \<noteq> CR" by auto
  have "parse_process_char parse_reset (Some c) = parse_process_char ?q (Some c)"
    using c by (simp add: parse_process_char_def parse_reset_def)
  then have "parse_chars parse_reset (join '','' row @ line_end) =
             parse_chars ?q (join '','' row @ line_end)"
    unfolding j by simp
  also have "\<dots> = Inr \<lparr>ps_state = START_RECORD, ps_fields = ps_fields ?q @ row, ps_field = []\<rparr>"
    using p e by (intro parse_chars_row) (simp_all add: plain_row_def)
  finally show ?thesis by simp
qed

lemma stringio_lines_no_lf:
  "LF \<notin> set l \<Longrightarrow> stringio_lines_from cur (l @ rest) = stringio_lines_from (cur @ l) rest"
  by (induction l arbitrary: cur) auto

lemma stringio_lines_csv_file:
  "list_all plain_row rows \<Longrightarrow> stringio_lines (csv_file rows) = map csv_line rows"
proof (induction rows)
  case Nil
  show ?case by (simp add: csv_file_def stringio_lines_def)
next
  case (Cons row rows)
  then have p: "plain_row row" and r: "list_all plain_row rows" by simp_all
  have "stringio_lines_from [] (csv_file (row # rows)) =
        stringio_lines_from (join '','' row) (LF # csv_file rows)"
    using stringio_lines_no_lf[OF plain_row_no_lf[OF p], of "[]"] by (simp add: csv_file_def csv_line_def)
  also have "\<dots> = csv_line row # stringio_lines_from [] (csv_file rows)" by (simp add: csv_line_def)
  finally show ?case using Cons.IH[OF r] by (simp add: stringio_lines_def)
qed

lemma csv_reader_from_lines:
  "list_all plain_row rows \<Longrightarrow> csv_reader_from parse_reset (map csv_line rows) = (rows, None)"
proof (induction rows)
  case Nil
  show ?case by (simp add: parse_reset_def)
next
  case (Cons row rows)
  then have p: "plain_row row" and r: "list_all plain_row rows" by simp_all
  have "parse_chars parse_reset (csv_line row) =
        Inr \<lparr>ps_state = START_RECORD, ps_fields = row, ps_field = []\<rparr>"
    unfolding csv_line_def using p by (intro parse_chars_record) simp_all
  then show ?case using Cons.IH[OF r] by simp
qed

lemma csv_reader_csv_file: "list_all plain_row rows \<Longrightarrow> csv_reader (csv_file rows) = (rows, None)"
  by (simp add: csv_reader_def stringio_lines_csv_file csv_reader_from_lines)

lemma csv_reader_header_slice:
  assumes p: "plain_row header" and len: "length (join '','' header) \<le> m"
  shows "\<exists>later e. csv_reader (take m (csv_file (header # rows))) = (header # later, e)"
proof -
  let ?h = "join '','' header"
  have "take m (csv_file (header # rows)) = ?h @ take (m - length ?h) (LF # csv_file rows)"
    using len by (simp add: csv_file_def csv_line_def)
  then have lines: "stringio_lines (take m (csv_file (header # rows))) =
             stringio_lines_from ?h (take (m - length ?h) (LF # csv_file rows))"
    using stringio_lines_no_lf[OF plain_row_no_lf[OF p], of "[]"] by (simp add: stringio_lines_def)
  have "\<exists>line_end more. (line_end = [] \<or> line_end = [LF]) \<and>
          stringio_lines_from ?h (take (m - length ?h) (LF # csv_file rows)) = (?h @ line_end) # more"
    using plain_row_join_nonempty[OF p] by (cases "m - length ?h") simp_all
  then obtain line_end more where e: "line_end = [] \<or> line_end = [LF]"
    and l: "stringio_lines (take m (csv_file (header # rows))) = (?h @ line_end) # more"
    using lines by auto
  obtain rs err where rest: "csv_reader_from parse_reset more = (rs, err)"
    by (cases "csv_reader_from parse_reset more")
  have "csv_reader (take m (csv_file (header # rows))) = (header # rs, err)"
    unfolding csv_reader_def l using parse_chars_record[OF p e] rest by simp
  then show ?thesis by blast
qed



text \<open>The fragments of a content in which the reader finds a header record and data
  records of the header's number of fields.\<close>

lemma csv_calc_fragments_records:
  assumes blob: "get_blob (ar_external_id artifact) = Some content"
    and utf8: "utf8_valid (map of_char content)"
    and utf8_slice: "utf8_valid (map of_char (take 4097 content))"
    and records: "csv_reader content = (header # rows, None)"
    and slice: "csv_reader (take 4097 content) = (header # later, e)"
    and header: "header \<noteq> []"
    and widths: "list_all (\<lambda>row. length row = length header) rows"
    and no_range: "start_byte = None \<or> end_byte = None"
  shows "csv_calc_fragments get_blob uuid4_hex n text_content_filter artifact fragment_id
           start_byte end_byte =
         (Inr (csv_fragment uuid4_hex text_content_filter artifact header n header #
               map (\<lambda>(i, row). csv_fragment uuid4_hex text_content_filter artifact header i row)
                 (List.enumerate (Suc n) rows)), n + Suc (length rows))"
proof -
  have names: "calc_fieldnames get_blob artifact = Inr header"
    using blob utf8_slice slice by (simp add: calc_fieldnames_def get_artifact_chunk_def decode_utf8_def)
  have content: "parse_content get_blob (ar_external_id artifact) start_byte end_byte = Inr content"
    using no_range blob utf8
    by (auto simp: parse_content_def get_artifact_def decode_utf8_def split: option.splits)
  have w: "list_all (\<lambda>row. length row = length header) (header # rows)" using widths by simp
  have "list_all (\<lambda>row. row \<noteq> []) (header # rows)"
    using w header by (auto simp: list_all_iff)
  then have nonempty: "filter (\<lambda>row. row \<noteq> []) (header # rows) = header # rows"
    by (simp add: list_all_iff filter_id_conv)
  have "csv_calc_fragments get_blob uuid4_hex n text_content_filter artifact fragment_id
          start_byte end_byte =
        (Inr (map (\<lambda>(i, row). csv_fragment uuid4_hex text_content_filter artifact header i row)
               (List.enumerate n (header # rows))), n + length (header # rows))"
    unfolding csv_calc_fragments_def names content
    using records nonempty csv_row_fragments_explicit[OF w] by simp
  then show ?thesis by simp
qed

text \<open>A file written from plain cells, one line per row, is such a content when its header
  line is no longer than the 4097 bytes read for the field names.\<close>

lemma csv_file_fragments:
  assumes blob: "get_blob (ar_external_id artifact) = Some (csv_file (header # rows))"
    and header: "plain_row header"
    and data: "list_all plain_row rows"
    and widths: "list_all (\<lambda>row. length row = length header) rows"
    and fits: "length (join '','' header) \<le> 4097"
    and utf8: "utf8_valid (map of_char (csv_file (header # rows)))"
    and utf8_slice: "utf8_valid (map of_char (take 4097 (csv_file (header # rows))))"
    and no_range: "start_byte = None \<or> end_byte = None"
  shows "csv_calc_fragments get_blob uuid4_hex n text_content_filter artifact fragment_id
           start_byte end_byte =
         (Inr (csv_fragment uuid4_hex text_content_filter artifact header n header #
               map (\<lambda>(i, row). csv_fragment uuid4_hex text_content_filter artifact header i row)
                 (List.enumerate (Suc n) rows)), n + Suc (length rows))"
proof -
  have all: "list_all plain_row (header # rows)" using header data by simp
  from csv_reader_header_slice[OF header fits, of rows] obtain later e where
    slice: "csv_reader (take 4097 (csv_file (header # rows))) = (header # later, e)" by blast
  have ne: "header \<noteq> []" using header by (simp add: plain_row_def)
  show ?thesis
    using blob utf8 utf8_slice csv_reader_csv_file[OF all] slice ne widths no_range
    by (rule csv_calc_fragments_records)
qed


definition example_uuid4_hex :: "nat \<Rightarrow> string" where
  "example_uuid4_hex i = ''id'' @ str_nat i"

definition csv_header :: "string list" where
  "csv_header = [''foo'', ''bar'', ''baz'']"

definition csv_rows :: "string list list" where
  "csv_rows = [[''0'', ''1'', ''quux'']]"

lemma csv_text_file: "csv_text = csv_file (csv_header # csv_rows)"
  by (simp add: csv_text_def csv_file_def csv_line_def csv_header_def csv_rows_def)

lemma csv_text_utf8: "utf8_valid (map of_char csv_text)"
  by (simp add: csv_text_def LF_def)

lemma csv_example_rows: "list_all plain_row (csv_header # csv_rows)"
  by (simp add: csv_header_def csv_rows_def plain_row_def plain_cell_def plain_char_def py_len_def
      field_size_limit_def LF_def CR_def)

lemma csv_text_reader: "csv_reader csv_text = (csv_header # csv_rows, None)"
  unfolding csv_text_file by (rule csv_reader_csv_file[OF csv_example_rows])

lemma csv_text_slices: "take 4097 csv_text = csv_text" "take 21 csv_text = csv_text"
  by (simp_all add: csv_text_def)



section \<open>Disaggregation: extraction in chunks\<close>

text \<open>
  \<^verbatim>\<open>Disaggregation.disaggregate_one\<close> and \<^verbatim>\<open>disaggregate_and_chunk_all\<close> of
  \<^verbatim>\<open>cif/disaggregation.py\<close>, with the \<^verbatim>\<open>calc_fragments\<close> of every extractor of
  \<^verbatim>\<open>cif/extractor.py\<close>. What the HTML parser returns for a document (its text, its links,
  its title) is given by the environment, as is \<^verbatim>\<open>calc_fragment_keys\<close>, on which no
  statement below depends. The catalog is the rows handed to \<^verbatim>\<open>insert_fragments\<close> and
  \<^verbatim>\<open>insert_fragment_keys\<close>, in order.
\<close>

record fragment_key =
  fk_source_id :: string
  fk_artifact_id :: string
  fk_fragment_id :: string
  fk_seq_no :: int
  fk_key :: string
  fk_value :: string

record html_parser =
  hp_text :: "string \<Rightarrow> string"
  hp_links :: "string \<Rightarrow> string list"
  hp_title :: "string \<Rightarrow> string option"

datatype extractor =
    HTMLExtractor "(string \<Rightarrow> string) option"
  | HTMLLinkExtractor "(string \<Rightarrow> string) option"
  | HTMLTitleExtractor "(string \<Rightarrow> string) option"
  | CSVRowExtractor "(string \<Rightarrow> string) option"

record extraction_env =
  env_get_blob :: "string \<Rightarrow> string option"
  env_html :: html_parser
  env_fragment_keys :: "artifact_row \<Rightarrow> fragment \<Rightarrow> py_error + fragment_key list"

text \<open>\<^verbatim>\<open>calc_fragments\<close>: the HTML extractors take the \<^verbatim>\<open>fragment_id\<close> and the byte range
  in \<^verbatim>\<open>**kwargs\<close> and read the whole artifact; every extractor draws the fragment id of
  each fragment from \<^verbatim>\<open>uuid4()\<close>.\<close>

fun calc_fragments ::
  "extraction_env \<Rightarrow> (nat \<Rightarrow> string) \<Rightarrow> nat \<Rightarrow> extractor \<Rightarrow> artifact_row \<Rightarrow> string option
     \<Rightarrow> nat option \<Rightarrow> nat option \<Rightarrow> (py_error + fragment list) \<times> nat" where
  "calc_fragments env uuid4_hex n (HTMLExtractor text_content_filter) artifact fragment_id
     start_byte end_byte =
     (case get_artifact (env_get_blob env) (ar_external_id artifact) of
        Inl e \<Rightarrow> (Inl e, n)
      | Inr content \<Rightarrow>
          (Inr [new_fragment text_content_filter artifact (uuid4_hex n) 0 DOCUMENT
                  (hp_text (env_html env) content) None], n + 1))"
| "calc_fragments env uuid4_hex n (HTMLLinkExtractor text_content_filter) artifact fragment_id
     start_byte end_byte =
     (case get_artifact (env_get_blob env) (ar_external_id artifact) of
        Inl e \<Rightarrow> (Inl e, n)
      | Inr content \<Rightarrow>
          (Inr (map (\<lambda>(i, link). new_fragment text_content_filter artifact (uuid4_hex i) 0 LINK
                                   link None)
                  (List.enumerate n (hp_links (env_html env) content))),
           n + length (hp_links (env_html env) content)))"
| "calc_fragments env uuid4_hex n (HTMLTitleExtractor text_content_filter) artifact fragment_id
     start_byte end_byte =
     (case get_artifact (env_get_blob env) (ar_external_id artifact) of
        Inl e \<Rightarrow> (Inl e, n)
      | Inr content \<Rightarrow>
          (case hp_title (env_html env) content of
             None \<Rightarrow> (Inl AttributeError, n + 1)
           | Some title \<Rightarrow>
               (Inr [new_fragment text_content_filter artifact (uuid4_hex n) 0 TITLE title None],
                n + 1)))"
| "calc_fragments env uuid4_hex n (CSVRowExtractor text_content_filter) artifact fragment_id
     start_byte end_byte =
     csv_calc_fragments (env_get_blob env) uuid4_hex n text_content_filter artifact fragment_id
       start_byte end_byte"

record catalog_writes =
  w_fragments :: "fragment list"
  w_fragment_keys :: "fragment_key list"

fun collect_keys :: "('a \<Rightarrow> py_error + 'b list) \<Rightarrow> 'a list \<Rightarrow> py_error + 'b list" where
  "collect_keys f [] = Inr []"
| "collect_keys f (x # xs) =
     (case f x of
        Inl e \<Rightarrow> Inl e
      | Inr ks \<Rightarrow> (case collect_keys f xs of Inl e \<Rightarrow> Inl e | Inr rest \<Rightarrow> Inr (ks @ rest)))"

definition disaggregate_one ::
  "extraction_env \<Rightarrow> (nat \<Rightarrow> string) \<Rightarrow> nat \<Rightarrow> catalog_writes \<Rightarrow> artifact_row \<Rightarrow> extractor
     \<Rightarrow> string option \<Rightarrow> nat option \<Rightarrow> nat option \<Rightarrow> (py_error + nat) \<times> nat \<times> catalog_writes" where
  "disaggregate_one env uuid4_hex n writes artifact extractor fragment_id start_byte end_byte =
     (case calc_fragments env uuid4_hex n extractor artifact fragment_id start_byte end_byte of
        (Inl e, n') \<Rightarrow> (Inl e, n', writes)
      | (Inr fragments, n') \<Rightarrow>
          (let writes1 = fold (\<lambda>batch_fragments w. w\<lparr>w_fragments := w_fragments w @ batch_fragments\<rparr>)
                           (batcher fragments 1000) writes
           in case collect_keys (env_fragment_keys env artifact) fragments of
                Inl e \<Rightarrow> (Inl e, n', writes1)
              | Inr fragment_keys \<Rightarrow>
                  (Inr 1, n',
                   fold (\<lambda>batch_keys w. w\<lparr>w_fragment_keys := w_fragment_keys w @ batch_keys\<rparr>)
                     (batcher fragment_keys 2000) writes1)))"

text \<open>
  \<^verbatim>\<open>disaggregate_and_chunk_all\<close> submits one task per artifact, chunk and extractor to a
  pool of three threads, each with a fragment id drawn at submission. The model runs the
  tasks one after the other in the order of submission, and keeps for each task its
  fragment id and the fragment rows it wrote. The result is the first exception in that
  order, or the sum of the results. When the line chunks of an artifact end with an
  exception, the tasks submitted before it still run, as the pool waits for them on exit,
  and the exception is the result.
\<close>

record task =
  task_artifact :: artifact_row
  task_extractor :: extractor
  task_fragment_id :: string
  task_start_byte :: int
  task_end_byte :: int
  task_fragments_written :: "fragment list"

fun run_tasks ::
  "extraction_env \<Rightarrow> (nat \<Rightarrow> string) \<Rightarrow> nat \<Rightarrow> catalog_writes
     \<Rightarrow> (artifact_row \<times> (int \<times> int) \<times> extractor) list
     \<Rightarrow> (py_error + nat) list \<times> nat \<times> catalog_writes \<times> task list" where
  "run_tasks env uuid4_hex n writes [] = ([], n, writes, [])"
| "run_tasks env uuid4_hex n writes ((artifact, (start_byte, end_byte), extractor) # rest) =
     (let fragment_id = uuid4_hex n;
          (r, n1, writes1) =
             disaggregate_one env uuid4_hex (n + 1) writes artifact extractor (Some fragment_id)
               (Some (nat start_byte)) (Some (nat end_byte));
          t = \<lparr>task_artifact = artifact, task_extractor = extractor, task_fragment_id = fragment_id,
               task_start_byte = start_byte, task_end_byte = end_byte,
               task_fragments_written = drop (length (w_fragments writes)) (w_fragments writes1)\<rparr>;
          (rs, n2, writes2, ts) = run_tasks env uuid4_hex n1 writes1 rest
      in (r # rs, n2, writes2, t # ts))"

fun chunk_tasks ::
  "extraction_env \<Rightarrow> extractor list \<Rightarrow> nat \<Rightarrow> artifact_row list
     \<Rightarrow> (artifact_row \<times> (int \<times> int) \<times> extractor) list \<times> py_error option" where
  "chunk_tasks env extractors lines_per_chunk [] = ([], None)"
| "chunk_tasks env extractors lines_per_chunk (artifact # artifacts) =
     (let (chunks, err) =
            line_chunks_yielded (env_get_blob env) (ar_external_id artifact) lines_per_chunk;
          here = [(artifact, chunk, extractor). chunk \<leftarrow> chunks, extractor \<leftarrow> extractors]
      in case err of
           Some e \<Rightarrow> (here, Some e)
         | None \<Rightarrow>
             (let (later, err') = chunk_tasks env extractors lines_per_chunk artifacts
              in (here @ later, err')))"

fun first_error_or_sum :: "(py_error + nat) list \<Rightarrow> py_error + nat" where
  "first_error_or_sum [] = Inr 0"
| "first_error_or_sum (Inl e # rs) = Inl e"
| "first_error_or_sum (Inr k # rs) =
     (case first_error_or_sum rs of Inl e \<Rightarrow> Inl e | Inr m \<Rightarrow> Inr (k + m))"

definition disaggregate_and_chunk_all ::
  "extraction_env \<Rightarrow> extractor list \<Rightarrow> (nat \<Rightarrow> string) \<Rightarrow> nat \<Rightarrow> catalog_writes
     \<Rightarrow> artifact_row list \<Rightarrow> nat \<Rightarrow> (py_error + nat) \<times> nat \<times> catalog_writes \<times> task list" where
  "disaggregate_and_chunk_all env extractors uuid4_hex n writes artifacts lines_per_chunk =
     (let (submitted, err) = chunk_tasks env extractors lines_per_chunk artifacts;
          (rs, n', writes', ts) = run_tasks env uuid4_hex n writes submitted
      in (case err of Some e \<Rightarrow> Inl e | None \<Rightarrow> first_error_or_sum rs, n', writes', ts))"

text \<open>A bucket holding the CSV text of the tests as \<^verbatim>\<open>t.csv\<close>.\<close>

definition csv_env :: extraction_env where
  "csv_env =
     \<lparr>env_get_blob = (\<lambda>external_id. if external_id = ''t.csv'' then Some csv_text else None),
      env_html = \<lparr>hp_text = (\<lambda>content. content), hp_links = (\<lambda>content. []),
                  hp_title = (\<lambda>content. None)\<rparr>,
      env_fragment_keys = (\<lambda>artifact fragment. Inr [])\<rparr>"

definition no_writes :: catalog_writes where
  "no_writes = \<lparr>w_fragments = [], w_fragment_keys = []\<rparr>"

subsection \<open>The fragment ids a task writes\<close>

text \<open>The fragments of one call of \<^verbatim>\<open>calc_fragments\<close> carry, in order, the identifiers
  drawn during the call; so a task never writes the identifier drawn for it before.\<close>

lemma csv_row_fragments_ids:
  "csv_row_fragments uuid4_hex n text_content_filter artifact fieldnames rows = (Inr fragments, n') \<Longrightarrow>
   map fr_fragment_id fragments = map uuid4_hex [n..<n']"
proof (induction rows arbitrary: n fragments)
  case Nil
  then show ?case by simp
next
  case (Cons row rows)
  from Cons.prems have w: "length row = length fieldnames" by (auto split: if_splits)
  obtain r m where rec: "csv_row_fragments uuid4_hex (n + 1) text_content_filter artifact fieldnames rows = (r, m)"
    by (cases "csv_row_fragments uuid4_hex (n + 1) text_content_filter artifact fieldnames rows")
  with Cons.prems w obtain rest where r: "r = Inr rest" and m: "m = n'"
    and f: "fragments = new_fragment text_content_filter artifact (uuid4_hex n) 0 ROW
              (join '' '' (map snd (dict_of_row fieldnames row))) (Some (dict_of_row fieldnames row)) # rest"
    by (auto simp: Let_def split: sum.splits)
  from Cons.IH[OF rec[unfolded r m]] have ih: "map fr_fragment_id rest = map uuid4_hex [n + 1..<n']" .
  have le: "n + 1 \<le> n'"
  proof -
    have "\<And>k fs k'. csv_row_fragments uuid4_hex k text_content_filter artifact fieldnames rows = (fs, k')
            \<Longrightarrow> k \<le> k'"
    proof (induction rows)
      case Nil
      then show ?case by simp
    next
      case (Cons a rows)
      show ?case
      proof (cases "length a = length fieldnames")
        case False
        with Cons.prems show ?thesis by auto
      next
        case True
        obtain r2 m2 where 2: "csv_row_fragments uuid4_hex (k + 1) text_content_filter artifact fieldnames rows = (r2, m2)"
          by (cases "csv_row_fragments uuid4_hex (k + 1) text_content_filter artifact fieldnames rows")
        with Cons.prems True have "m2 = k'" by (auto simp: Let_def)
        with Cons.IH[OF 2] show ?thesis by simp
      qed
    qed
    from this[OF rec] m show ?thesis by simp
  qed
  have "[n..<n'] = n # [n + 1..<n']" using le by (simp add: upt_conv_Cons)
  then show ?case using ih f by (simp add: new_fragment_def)
qed

lemma calc_fragments_ids:
  "calc_fragments env uuid4_hex n extractor artifact fragment_id start_byte end_byte = (Inr fragments, n') \<Longrightarrow>
   map fr_fragment_id fragments = map uuid4_hex [n..<n']"
proof (cases extractor)
  case (HTMLExtractor f)
  assume "calc_fragments env uuid4_hex n extractor artifact fragment_id start_byte end_byte = (Inr fragments, n')"
  with HTMLExtractor show ?thesis by (auto simp: new_fragment_def split: sum.splits)
next
  case (HTMLLinkExtractor f)
  assume "calc_fragments env uuid4_hex n extractor artifact fragment_id start_byte end_byte = (Inr fragments, n')"
  with HTMLLinkExtractor obtain content where
    f: "fragments = map (\<lambda>(i, link). new_fragment f artifact (uuid4_hex i) 0 LINK link None)
                      (List.enumerate n (hp_links (env_html env) content))"
    and n': "n' = n + length (hp_links (env_html env) content)"
    by (auto split: sum.splits)
  have "map fr_fragment_id fragments =
        map (uuid4_hex \<circ> fst) (List.enumerate n (hp_links (env_html env) content))"
    unfolding f by (simp add: new_fragment_def split_def o_def)
  also have "\<dots> = map uuid4_hex (map fst (List.enumerate n (hp_links (env_html env) content)))"
    by (simp only: map_map)
  finally show ?thesis unfolding n' by (simp add: map_fst_enumerate)
next
  case (HTMLTitleExtractor f)
  assume "calc_fragments env uuid4_hex n extractor artifact fragment_id start_byte end_byte = (Inr fragments, n')"
  with HTMLTitleExtractor show ?thesis by (auto simp: new_fragment_def split: sum.splits option.splits)
next
  case (CSVRowExtractor f)
  assume "calc_fragments env uuid4_hex n extractor artifact fragment_id start_byte end_byte = (Inr fragments, n')"
  with CSVRowExtractor show ?thesis
    by (auto simp: csv_calc_fragments_def Let_def split: sum.splits prod.splits option.splits
        dest: csv_row_fragments_ids)
qed

lemma fold_fragment_batches:
  "w_fragments (fold (\<lambda>batch_fragments w. w\<lparr>w_fragments := w_fragments w @ batch_fragments\<rparr>) batches w) =
   w_fragments w @ concat batches"
  by (induction batches arbitrary: w) simp_all

lemma fold_key_batches:
  "w_fragments (fold (\<lambda>batch_keys w. w\<lparr>w_fragment_keys := w_fragment_keys w @ batch_keys\<rparr>) batches w) =
   w_fragments w"
  by (induction batches arbitrary: w) simp_all

lemma disaggregate_one_written:
  assumes "disaggregate_one env uuid4_hex n writes artifact extractor fragment_id start_byte end_byte =
           (r, n', writes')"
  shows "\<exists>new. w_fragments writes' = w_fragments writes @ new \<and>
               set (map fr_fragment_id new) \<subseteq> uuid4_hex ` {n..<n'}"
proof (cases "calc_fragments env uuid4_hex n extractor artifact fragment_id start_byte end_byte")
  case (Pair res m)
  show ?thesis
  proof (cases res)
    case (Inl e)
    with Pair assms have "writes' = writes" by (simp add: disaggregate_one_def)
    then show ?thesis by simp
  next
    case (Inr fragments)
    from calc_fragments_ids[OF Pair[unfolded Inr]]
    have ids: "map fr_fragment_id fragments = map uuid4_hex [n..<m]" .
    have m: "m = n'" using assms Pair Inr by (auto simp: disaggregate_one_def Let_def split: sum.splits)
    have "w_fragments writes' = w_fragments writes @ fragments"
      using assms Pair Inr concat_batcher[of 1000 fragments]
      by (auto simp: disaggregate_one_def Let_def fold_fragment_batches fold_key_batches
          split: sum.splits)
    moreover have "set (map fr_fragment_id fragments) \<subseteq> uuid4_hex ` {n..<n'}"
      unfolding ids m by auto
    ultimately show ?thesis by blast
  qed
qed

lemma task_fragment_id_not_written:
  assumes "inj uuid4_hex"
    and "disaggregate_one env uuid4_hex (n + 1) writes artifact extractor (Some (uuid4_hex n))
           start_byte end_byte = (r, n', writes')"
  shows "\<exists>new. w_fragments writes' = w_fragments writes @ new \<and>
               uuid4_hex n \<notin> set (map fr_fragment_id new)"
proof -
  from disaggregate_one_written[OF assms(2)] obtain new where
    new: "w_fragments writes' = w_fragments writes @ new"
    and ids: "set (map fr_fragment_id new) \<subseteq> uuid4_hex ` {n + 1..<n'}" by blast
  have "uuid4_hex n \<notin> uuid4_hex ` {n + 1..<n'}"
  proof
    assume "uuid4_hex n \<in> uuid4_hex ` {n + 1..<n'}"
    then obtain j where "j \<in> {n + 1..<n'}" and "uuid4_hex n = uuid4_hex j" by blast
    with assms(1) have "n = j" by (simp add: inj_eq)
    with \<open>j \<in> {n + 1..<n'}\<close> show False by simp
  qed
  with new ids show ?thesis by blast
qed

definition task_fragment_ids ::
  "(py_error + nat) \<times> nat \<times> catalog_writes \<times> task list \<Rightarrow> (string \<times> string list) list" where
  "task_fragment_ids r =
     map (\<lambda>t. (task_fragment_id t, map fr_fragment_id (task_fragments_written t)))
       (snd (snd (snd r)))"

text \<open>The one task of the example: the line chunks of the CSV text, and the fragments of
  its byte range.\<close>

lemma csv_text_line_chunks:
  "line_chunks_yielded (env_get_blob csv_env) (ar_external_id csv_artifact) 2 = ([(0, 20)], None)"
  by (simp add: csv_env_def csv_artifact_def line_chunks_yielded_def text_mode_lines_def
      text_lines_def csv_text_def continuation_def LF_def CR_def)

lemma csv_text_fragments:
  "csv_calc_fragments (env_get_blob csv_env) uuid4_hex n None csv_artifact fragment_id
     (Some 0) (Some 20) =
   (Inr [csv_fragment uuid4_hex None csv_artifact csv_header n csv_header,
         csv_fragment uuid4_hex None csv_artifact csv_header (n + 1) [''0'', ''1'', ''quux'']],
    n + 2)"
proof -
  have names: "calc_fieldnames (env_get_blob csv_env) csv_artifact = Inr csv_header"
    using csv_text_utf8 csv_text_reader
    by (simp add: calc_fieldnames_def get_artifact_chunk_def decode_utf8_def csv_env_def
        csv_artifact_def csv_text_slices)
  have content: "parse_content (env_get_blob csv_env) (ar_external_id csv_artifact) (Some 0) (Some 20) =
                 Inr csv_text"
    using csv_text_utf8
    by (simp add: parse_content_def get_artifact_chunk_def decode_utf8_def csv_env_def
        csv_artifact_def csv_text_slices)
  have w: "list_all (\<lambda>row. length row = length csv_header) (csv_header # csv_rows)"
    by (simp add: csv_header_def csv_rows_def)
  have nonempty: "filter (\<lambda>row. row \<noteq> []) (csv_header # csv_rows) = csv_header # csv_rows"
    by (simp add: csv_header_def csv_rows_def)
  show ?thesis
    unfolding csv_calc_fragments_def names content
    using csv_text_reader nonempty csv_row_fragments_explicit[OF w, of uuid4_hex n None csv_artifact]
    by (simp add: csv_rows_def)
qed

lemma csv_fragment_id: "fr_fragment_id (csv_fragment uuid4_hex f artifact fieldnames i row) = uuid4_hex i"
  by (simp add: csv_fragment_def new_fragment_def)

text \<open>
  C3. One CSV artifact of two lines, chunks of two lines, one \<^verbatim>\<open>CSVRowExtractor\<close>: one task
  is submitted, with fragment id \<^verbatim>\<open>id0\<close>, the first draw. It succeeds and writes two
  fragments, whose fragment ids are the next two draws, \<^verbatim>\<open>id1\<close> and \<^verbatim>\<open>id2\<close>: neither is
  the task's fragment id, and the two differ from each other.
\<close>

theorem chunk_fragments_do_not_carry_task_fragment_id:
  "fst (disaggregate_and_chunk_all csv_env [CSVRowExtractor None] example_uuid4_hex 0 no_writes
          [csv_artifact] 2) = Inr 1 \<and>
   task_fragment_ids
     (disaggregate_and_chunk_all csv_env [CSVRowExtractor None] example_uuid4_hex 0 no_writes
        [csv_artifact] 2) = [(''id0'', [''id1'', ''id2''])]"
proof -
  let ?fragments = "[csv_fragment example_uuid4_hex None csv_artifact csv_header 1 csv_header,
                     csv_fragment example_uuid4_hex None csv_artifact csv_header 2 [''0'', ''1'', ''quux'']]"
  have tasks: "chunk_tasks csv_env [CSVRowExtractor None] 2 [csv_artifact] =
               ([(csv_artifact, (0, 20), CSVRowExtractor None)], None)"
    by (simp add: csv_text_line_chunks)
  have "csv_calc_fragments (env_get_blob csv_env) example_uuid4_hex (Suc 0) None csv_artifact
          (Some (example_uuid4_hex 0)) (Some 0) (Some 20) = (Inr ?fragments, 3)"
    using csv_text_fragments[of example_uuid4_hex 1 "Some (example_uuid4_hex 0)"]
    by (simp add: numeral_2_eq_2 numeral_3_eq_3)
  then have one: "disaggregate_one csv_env example_uuid4_hex (Suc 0) no_writes csv_artifact
                    (CSVRowExtractor None) (Some (example_uuid4_hex 0)) (Some 0) (Some 20) =
                  (Inr 1, 3, \<lparr>w_fragments = ?fragments, w_fragment_keys = []\<rparr>)"
    using batcher_one_batch[of ?fragments 1000] batcher.simps[of "[] :: fragment_key list" 2000]
    by (simp add: disaggregate_one_def no_writes_def csv_env_def)
  have ids: "example_uuid4_hex 0 = ''id0''" "example_uuid4_hex (Suc 0) = ''id1''" "example_uuid4_hex 2 = ''id2''"
    by (simp_all add: example_uuid4_hex_def digit_char_def)
  show ?thesis
    unfolding disaggregate_and_chunk_all_def tasks
    using one by (simp add: task_fragment_ids_def no_writes_def csv_fragment_id ids)
qed

section \<open>Worker: the message callback\<close>

text \<open>
  \<^verbatim>\<open>Worker.__call__\<close> of \<^verbatim>\<open>cif/worker.py\<close> and the handlers it calls. The state holds
  what the callback can change: the acks and nacks of the message, the rows handed to
  \<^verbatim>\<open>insert_deferred_disaggregations\<close>, the fragment rows written, the number of calls of
  \<^verbatim>\<open>disaggregate_one\<close> and the number of identifiers drawn. The result is the exception
  that leaves the callback, if any. \<^verbatim>\<open>metric_timer\<close> lets an exception pass (it is tested
  so in \<^verbatim>\<open>tests/test_util.py\<close>) and touches none of this state.
\<close>

datatype disaggregation_status = PENDING | DONE | FAILED

record deferred_disaggregation =
  dd_source_id :: string
  dd_generation_id :: int
  dd_artifact_id :: string
  dd_extractor_type :: string
  dd_fragment_id :: "string option"
  dd_start_byte :: "nat option"
  dd_end_byte :: "nat option"
  dd_created_on :: int
  dd_status :: disaggregation_status
  dd_delivery_attempt :: int

record message =
  msg_data :: string
  msg_delivery_attempt :: "int option"

record source_model =
  src_source_id :: string
  src_extractors :: "extractor list"

record worker_env =
  we_validate_json :: "string \<Rightarrow> deferred_disaggregation option"
  we_get_source :: "string \<Rightarrow> source_model option"
  we_extraction :: "source_model \<Rightarrow> extraction_env"

record worker_state =
  ws_acks :: nat
  ws_nacks :: nat
  ws_deferred :: "deferred_disaggregation list"
  ws_writes :: catalog_writes
  ws_extractions :: nat
  ws_uuid_draws :: nat

text \<open>\<^verbatim>\<open>parse_message\<close>: \<^verbatim>\<open>message.data.decode("utf-8")\<close>, which raises
  \<^verbatim>\<open>UnicodeDecodeError\<close> unless the bytes are well-formed UTF-8, then \<^verbatim>\<open>model_validate_json\<close> of pydantic, which is given
  by the environment: it returns the record, or nothing where it raises
  \<^verbatim>\<open>ValidationError\<close>.\<close>

definition parse_message :: "worker_env \<Rightarrow> message \<Rightarrow> py_error + deferred_disaggregation" where
  "parse_message env message =
     (if \<not> utf8_valid (map of_char (msg_data message)) then Inl UnicodeDecodeError
      else case we_validate_json env (msg_data message) of
             None \<Rightarrow> Inl ValidationError
           | Some parsed_message \<Rightarrow> Inr parsed_message)"

text \<open>\<^verbatim>\<open>check_references\<close> and \<^verbatim>\<open>check_extractor\<close>; the extractors of the disaggregation
  that the factory builds are those configured for the source.\<close>

definition get_generation :: "catalog_db \<Rightarrow> string \<Rightarrow> int \<Rightarrow> generation_model option" where
  "get_generation db source_id generation_id =
     (case filter (\<lambda>g. ge_source_id g = source_id \<and> ge_generation_id g = generation_id)
             (db_generation db) of
        [] \<Rightarrow> None
      | g # _ \<Rightarrow> Some (generation_model_of g))"

definition get_artifact_by_id :: "catalog_db \<Rightarrow> string \<Rightarrow> artifact_row option" where
  "get_artifact_by_id db artifact_id =
     (case filter (\<lambda>a. ar_artifact_id a = artifact_id) (db_artifact db) of
        [] \<Rightarrow> None
      | a # _ \<Rightarrow> Some a)"

definition check_references ::
  "worker_env \<Rightarrow> catalog_db \<Rightarrow> deferred_disaggregation
     \<Rightarrow> py_error + (source_model \<times> generation_model \<times> artifact_row)" where
  "check_references env db parsed_message =
     (case (we_get_source env (dd_source_id parsed_message),
            get_generation db (dd_source_id parsed_message) (dd_generation_id parsed_message),
            get_artifact_by_id db (dd_artifact_id parsed_message)) of
        (Some source, Some generation, Some artifact) \<Rightarrow> Inr (source, generation, artifact)
      | _ \<Rightarrow> Inl NotFoundError)"

fun extractor_class_name :: "extractor \<Rightarrow> string" where
  "extractor_class_name (HTMLExtractor f) = ''HTMLExtractor''"
| "extractor_class_name (HTMLLinkExtractor f) = ''HTMLLinkExtractor''"
| "extractor_class_name (HTMLTitleExtractor f) = ''HTMLTitleExtractor''"
| "extractor_class_name (CSVRowExtractor f) = ''CSVRowExtractor''"

definition check_extractor :: "deferred_disaggregation \<Rightarrow> extractor list \<Rightarrow> py_error + extractor" where
  "check_extractor parsed_message extractors =
     (case filter (\<lambda>x. extractor_class_name x = dd_extractor_type parsed_message) extractors of
        [] \<Rightarrow> Inl NotFoundError
      | extractor # _ \<Rightarrow> Inr extractor)"

text \<open>The three handlers. \<^verbatim>\<open>message.delivery_attempt or 1\<close> is 1 for \<^verbatim>\<open>None\<close> and
  for 0.\<close>

definition delivery_attempt_or_1 :: "message \<Rightarrow> int" where
  "delivery_attempt_or_1 message =
     (case msg_delivery_attempt message of None \<Rightarrow> 1 | Some a \<Rightarrow> if a = 0 then 1 else a)"

definition insert_deferred_disaggregations ::
  "worker_state \<Rightarrow> deferred_disaggregation list \<Rightarrow> worker_state" where
  "insert_deferred_disaggregations st rows = st\<lparr>ws_deferred := ws_deferred st @ rows\<rparr>"

definition ack :: "worker_state \<Rightarrow> worker_state" where
  "ack st = st\<lparr>ws_acks := ws_acks st + 1\<rparr>"

definition nack :: "worker_state \<Rightarrow> worker_state" where
  "nack st = st\<lparr>ws_nacks := ws_nacks st + 1\<rparr>"

definition handle_disaggregation_failed_maybe_retry ::
  "worker_state \<Rightarrow> message \<Rightarrow> deferred_disaggregation \<Rightarrow> worker_state" where
  "handle_disaggregation_failed_maybe_retry st message parsed_message =
     nack (insert_deferred_disaggregations st
             [parsed_message\<lparr>dd_delivery_attempt := delivery_attempt_or_1 message,
                             dd_status := FAILED\<rparr>])"

definition handle_disaggregation_failed_no_retry ::
  "worker_state \<Rightarrow> message \<Rightarrow> deferred_disaggregation option \<Rightarrow> worker_state" where
  "handle_disaggregation_failed_no_retry st message parsed_message =
     ack (case parsed_message of
            Some p \<Rightarrow> insert_deferred_disaggregations st
                        [p\<lparr>dd_delivery_attempt := delivery_attempt_or_1 message,
                           dd_status := FAILED\<rparr>]
          | None \<Rightarrow> st)"

definition handle_disaggregation_done ::
  "worker_state \<Rightarrow> message \<Rightarrow> deferred_disaggregation \<Rightarrow> worker_state" where
  "handle_disaggregation_done st message parsed_message =
     ack (insert_deferred_disaggregations st
            [parsed_message\<lparr>dd_delivery_attempt := delivery_attempt_or_1 message,
                            dd_status := DONE\<rparr>])"

definition run_disaggregation ::
  "worker_env \<Rightarrow> (nat \<Rightarrow> string) \<Rightarrow> worker_state \<Rightarrow> message \<Rightarrow> deferred_disaggregation
     \<Rightarrow> source_model \<Rightarrow> artifact_row \<Rightarrow> extractor \<Rightarrow> worker_state" where
  "run_disaggregation env uuid4_hex st message parsed_message source artifact extractor =
     (case disaggregate_one (we_extraction env source) uuid4_hex (ws_uuid_draws st) (ws_writes st)
             artifact extractor (dd_fragment_id parsed_message) (dd_start_byte parsed_message)
             (dd_end_byte parsed_message) of
        (r, n', writes') \<Rightarrow>
          (let st1 = st\<lparr>ws_writes := writes', ws_uuid_draws := n',
                        ws_extractions := ws_extractions st + 1\<rparr>
           in case r of
                Inr _ \<Rightarrow> handle_disaggregation_done st1 message parsed_message
              | Inl _ \<Rightarrow> handle_disaggregation_failed_maybe_retry st1 message parsed_message))"

text \<open>The callback: only \<^verbatim>\<open>ValidationError\<close> and \<^verbatim>\<open>NotFoundError\<close> are caught around
  parsing and the checks; any exception of \<^verbatim>\<open>disaggregate_one\<close> is caught by the inner
  handler.\<close>

definition worker_call ::
  "worker_env \<Rightarrow> (nat \<Rightarrow> string) \<Rightarrow> catalog_db \<Rightarrow> worker_state \<Rightarrow> message
     \<Rightarrow> py_error option \<times> worker_state" where
  "worker_call env uuid4_hex db st message =
     (case parse_message env message of
        Inl e \<Rightarrow>
          (if e = ValidationError then (None, handle_disaggregation_failed_no_retry st message None)
           else (Some e, st))
      | Inr parsed_message \<Rightarrow>
          (case check_references env db parsed_message of
             Inl e \<Rightarrow> (None, handle_disaggregation_failed_no_retry st message (Some parsed_message))
           | Inr (source, generation, artifact) \<Rightarrow>
               (case check_extractor parsed_message (src_extractors source) of
                  Inl e \<Rightarrow>
                    (None, handle_disaggregation_failed_no_retry st message (Some parsed_message))
                | Inr extractor \<Rightarrow>
                    (None, run_disaggregation env uuid4_hex st message parsed_message source
                             artifact extractor))))"

definition undecodable_message :: message where
  "undecodable_message = \<lparr>msg_data = [CHR 0xFF], msg_delivery_attempt = Some 1\<rparr>"

definition empty_message :: message where
  "empty_message = \<lparr>msg_data = [], msg_delivery_attempt = Some 1\<rparr>"

text \<open>A payload that decodes and fails validation, the empty payload among them, is
  acked once and leaves everything else as it was.\<close>

lemma worker_call_validation_error:
  "parse_message env message = Inl ValidationError \<Longrightarrow>
   worker_call env uuid4_hex db st message = (None, st\<lparr>ws_acks := ws_acks st + 1\<rparr>)"
  by (simp add: worker_call_def handle_disaggregation_failed_no_retry_def ack_def)

lemma worker_call_empty_message:
  "we_validate_json env [] = None \<Longrightarrow>
   worker_call env uuid4_hex db st empty_message = (None, st\<lparr>ws_acks := ws_acks st + 1\<rparr>)"
  by (rule worker_call_validation_error) (simp add: parse_message_def empty_message_def)

text \<open>
  C9. The payload of the single byte 0xFF fails to parse: decoding raises
  \<^verbatim>\<open>UnicodeDecodeError\<close>, which the callback does not catch. The exception leaves the
  callback and the state is unchanged: the message is not acked (nor nacked), where the
  claim has exactly one ack.
\<close>

theorem worker_call_undecodable_payload:
  "parse_message env undecodable_message = Inl UnicodeDecodeError \<and>
   worker_call env uuid4_hex db st undecodable_message = (Some UnicodeDecodeError, st) \<and>
   ws_acks (snd (worker_call env uuid4_hex db st undecodable_message)) = ws_acks st"
  by (simp add: worker_call_def parse_message_def undecodable_message_def)

end
